theory Spec2Isabelle
  imports Complex_Main
begin

section \<open>Python values and exceptions\<close>

text \<open>
  The constructor of the circuit breaker inspects the dynamic type of its arguments
  (\<^verbatim>\<open>isinstance\<close>), and the adapters walk decoded JSON, so both work on Python
  values. \<^verbatim>\<open>bool\<close> is a subclass of \<^verbatim>\<open>int\<close> in Python: \<^verbatim>\<open>isinstance(True, int)\<close>
  holds and \<^verbatim>\<open>True\<close> compares as 1. Floats are modelled as reals; a \<^verbatim>\<open>dict\<close> with
  string keys is an association list in insertion order.
\<close>

datatype pyval =
    PyNone | PyBool bool | PyInt int | PyFloat real | PyStr string
  | PyList "pyval list" | PyDict "(string \<times> pyval) list"

text \<open>
  The exceptions the orchestration code distinguishes. \<^verbatim>\<open>CancelledError\<close> derives from
  \<^verbatim>\<open>BaseException\<close>, so \<^verbatim>\<open>except Exception\<close> does not catch it; every other
  constructor is a subclass of \<^verbatim>\<open>Exception\<close>. \<open>OtherException\<close> stands for any
  further subclass of \<^verbatim>\<open>Exception\<close>, with its message.
\<close>

datatype exn =
    ValueError string
  | TypeError string
  | AttributeError string
  | CircuitBreakerOpenError string int int
  | TimeoutError
  | CancelledError
  | OtherException string

fun is_Exception :: "exn \<Rightarrow> bool" where
  "is_Exception CancelledError = False"
| "is_Exception _ = True"

fun is_CircuitBreakerOpenError :: "exn \<Rightarrow> bool" where
  "is_CircuitBreakerOpenError (CircuitBreakerOpenError _ _ _) = True"
| "is_CircuitBreakerOpenError _ = False"

fun isinstance_int :: "pyval \<Rightarrow> bool" where
  "isinstance_int (PyInt _) = True"
| "isinstance_int (PyBool _) = True"
| "isinstance_int _ = False"

fun isinstance_int_float :: "pyval \<Rightarrow> bool" where
  "isinstance_int_float (PyInt _) = True"
| "isinstance_int_float (PyBool _) = True"
| "isinstance_int_float (PyFloat _) = True"
| "isinstance_int_float _ = False"

fun isinstance_str :: "pyval \<Rightarrow> bool" where
  "isinstance_str (PyStr _) = True"
| "isinstance_str _ = False"

text \<open>The numeric value of a number; only read after the \<^verbatim>\<open>isinstance\<close> test passed.\<close>

fun num_val :: "pyval \<Rightarrow> real" where
  "num_val (PyInt i) = real_of_int i"
| "num_val (PyBool b) = (if b then 1 else 0)"
| "num_val (PyFloat r) = r"
| "num_val _ = 0"

fun int_val :: "pyval \<Rightarrow> int" where
  "int_val (PyInt i) = i"
| "int_val (PyBool b) = (if b then 1 else 0)"
| "int_val _ = 0"

fun str_val :: "pyval \<Rightarrow> string" where
  "str_val (PyStr s) = s"
| "str_val _ = []"

text \<open>
  \<^verbatim>\<open>str.strip()\<close> removes leading and trailing whitespace. The whitespace characters
  below code point 256 are the ones \<^verbatim>\<open>str.isspace\<close> accepts there.
\<close>

definition py_isspace :: "char \<Rightarrow> bool" where
  "py_isspace c = ((of_char c :: nat) \<in> {9, 10, 11, 12, 13, 28, 29, 30, 31, 32, 133, 160})"

definition strip :: "string \<Rightarrow> string" where
  "strip s = rev (dropWhile py_isspace (rev (dropWhile py_isspace s)))"

section \<open>The circuit breaker (app/services/circuit\_breaker.py)\<close>

datatype CircuitState = CLOSED | OPEN | HALF_OPEN

fun state_value :: "CircuitState \<Rightarrow> string" where
  "state_value CLOSED = ''closed''"
| "state_value OPEN = ''open''"
| "state_value HALF_OPEN = ''half_open''"

text \<open>
  The object's attributes. \<open>failure_count\<close>, \<open>last_failure_time\<close> and \<open>state_attr\<close>
  are the private attributes \<^verbatim>\<open>_failure_count\<close>, \<^verbatim>\<open>_last_failure_time\<close> and
  \<^verbatim>\<open>_state\<close>; \<open>None\<close> is Python's \<^verbatim>\<open>None\<close>. Timestamps are the readings of
  \<^verbatim>\<open>time.time()\<close>.
\<close>

record CircuitBreaker =
  failure_threshold :: int
  timeout :: real
  reset_timeout :: real
  name :: string
  failure_count :: int
  last_failure_time :: "real option"
  state_attr :: CircuitState

definition CircuitBreaker_init :: "pyval \<Rightarrow> pyval \<Rightarrow> pyval \<Rightarrow> pyval \<Rightarrow> exn + CircuitBreaker" where
  "CircuitBreaker_init ft tmo rt nm =
     (if \<not> isinstance_int ft \<or> num_val ft \<le> 0 then
        Inl (ValueError ''failure_threshold must be a positive integer'')
      else if \<not> isinstance_int_float tmo \<or> num_val tmo \<le> 0 then
        Inl (ValueError ''timeout must be a positive number'')
      else if \<not> isinstance_int_float rt \<or> num_val rt \<le> 0 then
        Inl (ValueError ''reset_timeout must be a positive number'')
      else if \<not> isinstance_str nm \<or> strip (str_val nm) = [] then
        Inl (ValueError ''name must be a non-empty string'')
      else
        Inr \<lparr> failure_threshold = int_val ft, timeout = num_val tmo,
              reset_timeout = num_val rt, name = strip (str_val nm),
              failure_count = 0, last_failure_time = None, state_attr = CLOSED \<rparr>)"

text \<open>The default value of the parameter \<^verbatim>\<open>name\<close>.\<close>

definition default_name :: pyval where
  "default_name = PyStr ''circuit_breaker''"

text \<open>
  \<^verbatim>\<open>_update_state\<close>, at the clock reading \<open>now\<close>. The test
  \<^verbatim>\<open>self._last_failure_time and ...\<close> is a truth test: \<^verbatim>\<open>None\<close> and the float 0.0
  are both false.
\<close>

definition update_state :: "real \<Rightarrow> CircuitBreaker \<Rightarrow> CircuitBreaker" where
  "update_state now cb =
     (if state_attr cb = OPEN then
        (case last_failure_time cb of
           None \<Rightarrow> cb
         | Some t \<Rightarrow>
             if t \<noteq> 0 \<and> now - t \<ge> reset_timeout cb
             then cb\<lparr>state_attr := HALF_OPEN\<rparr> else cb)
      else cb)"

text \<open>The property \<^verbatim>\<open>state\<close>: the lazy check, then the stored state.\<close>

definition state :: "real \<Rightarrow> CircuitBreaker \<Rightarrow> CircuitState \<times> CircuitBreaker" where
  "state now cb = (let cb' = update_state now cb in (state_attr cb', cb'))"

definition on_success :: "CircuitBreaker \<Rightarrow> CircuitBreaker" where
  "on_success cb =
     (let cb1 = cb\<lparr>failure_count := 0\<rparr>
      in if state_attr cb1 = HALF_OPEN then cb1\<lparr>state_attr := CLOSED\<rparr> else cb1)"

definition on_failure :: "real \<Rightarrow> CircuitBreaker \<Rightarrow> CircuitBreaker" where
  "on_failure now cb =
     (let cb1 = cb\<lparr>failure_count := failure_count cb + 1, last_failure_time := Some now\<rparr>
      in if failure_count cb1 \<ge> failure_threshold cb1 then cb1\<lparr>state_attr := OPEN\<rparr> else cb1)"

definition reset :: "CircuitBreaker \<Rightarrow> CircuitBreaker" where
  "reset cb = cb\<lparr>failure_count := 0, last_failure_time := None, state_attr := CLOSED\<rparr>"

text \<open>\<^verbatim>\<open>int(x)\<close> on a float truncates towards zero.\<close>

definition py_int :: "real \<Rightarrow> int" where
  "py_int x = (if 0 \<le> x then \<lfloor>x\<rfloor> else \<lceil>x\<rceil>)"

text \<open>
  The error raised while the breaker is open. Its message is an f-string over the
  breaker's name, its threshold and \<^verbatim>\<open>int(self.reset_timeout)\<close>; the exception carries
  these three values.
\<close>

definition open_error :: "CircuitBreaker \<Rightarrow> exn" where
  "open_error cb =
     CircuitBreakerOpenError (name cb) (failure_threshold cb) (py_int (reset_timeout cb))"

text \<open>
  \<^verbatim>\<open>call\<close>. The wrapped coroutine \<open>func\<close> acts on the outside world \<open>'w\<close> (the
  network, the clock) and returns a value or raises; \<open>clock\<close> reads \<^verbatim>\<open>time.time()\<close>
  from the world. When the breaker is open the function is not applied, so the world
  comes back as it was. \<^verbatim>\<open>except Exception\<close> records a failure and re-raises; a
  \<^verbatim>\<open>CancelledError\<close> passes through unrecorded.
\<close>

definition call ::
  "('w \<Rightarrow> real) \<Rightarrow> ('w \<Rightarrow> (exn + 'a) \<times> 'w) \<Rightarrow> CircuitBreaker \<Rightarrow> 'w
     \<Rightarrow> (exn + 'a) \<times> CircuitBreaker \<times> 'w" where
  "call clock func cb w =
     (let cb1 = update_state (clock w) cb
      in if state_attr cb1 = OPEN then (Inl (open_error cb1), cb1, w)
         else
           (case func w of
              (Inr result, w') \<Rightarrow> (Inr result, on_success cb1, w')
            | (Inl e, w') \<Rightarrow>
                if is_Exception e then (Inl e, on_failure (clock w') cb1, w')
                else (Inl e, cb1, w')))"

text \<open>
  \<^verbatim>\<open>call\<close> as one step, as above, is a call during which nothing else touches the
  breaker. In the program one breaker per supplier is shared by all requests (the
  orchestrator is a module-level singleton), and \<^verbatim>\<open>call\<close> awaits the wrapped coroutine
  between its check of the state and the recording of the outcome, so calls on a
  breaker overlap: while one call awaits, others pass the check and record. The breakers
  of the program are therefore those built by the constructor and then driven, in any
  order, by reads of \<^verbatim>\<open>state\<close>, by \<^verbatim>\<open>reset\<close>, by calls passing the check (a rejected
  call does what a read does), and by calls that passed the check recording a success,
  a failure, or nothing (a \<^verbatim>\<open>CancelledError\<close>). \<open>running cb n\<close>: the breaker \<open>cb\<close>
  exists with \<open>n\<close> calls awaiting their outcome.
\<close>

inductive running :: "CircuitBreaker \<Rightarrow> nat \<Rightarrow> bool" where
  constructed: "CircuitBreaker_init ft tmo rt nm = Inr cb \<Longrightarrow> running cb 0"
| state_read: "running cb n \<Longrightarrow> running (update_state now cb) n"
| call_entered:
    "running cb n \<Longrightarrow> state_attr (update_state now cb) \<noteq> OPEN
       \<Longrightarrow> running (update_state now cb) (Suc n)"
| call_succeeded: "running cb (Suc n) \<Longrightarrow> running (on_success cb) n"
| call_failed: "running cb (Suc n) \<Longrightarrow> running (on_failure now cb) n"
| call_cancelled: "running cb (Suc n) \<Longrightarrow> running cb n"
| was_reset: "running cb n \<Longrightarrow> running (reset cb) n"

text \<open>
  The special case in which no two calls overlap: each call records its outcome before
  the next call on the breaker passes the check.
\<close>

inductive serial :: "CircuitBreaker \<Rightarrow> bool" where
  serial_constructed: "CircuitBreaker_init ft tmo rt nm = Inr cb \<Longrightarrow> serial cb"
| serial_state_read: "serial cb \<Longrightarrow> serial (update_state now cb)"
| serial_call_succeeded:
    "serial cb \<Longrightarrow> state_attr (update_state now cb) \<noteq> OPEN
       \<Longrightarrow> serial (on_success (update_state now cb))"
| serial_call_failed:
    "serial cb \<Longrightarrow> state_attr (update_state now cb) \<noteq> OPEN
       \<Longrightarrow> serial (on_failure now' (update_state now cb))"
| serial_was_reset: "serial cb \<Longrightarrow> serial (reset cb)"

text \<open>What holds of every breaker of the program, and what holds without overlap.\<close>

definition breaker_inv :: "CircuitBreaker \<Rightarrow> bool" where
  "breaker_inv cb =
     (0 < failure_threshold cb \<and> 0 < reset_timeout cb \<and> 0 \<le> failure_count cb \<and>
      (state_attr cb = CLOSED \<or> last_failure_time cb \<noteq> None))"

definition serial_inv :: "CircuitBreaker \<Rightarrow> bool" where
  "serial_inv cb =
     (if state_attr cb = CLOSED then failure_count cb < failure_threshold cb
      else failure_threshold cb \<le> failure_count cb)"

text \<open>\<open>on_failure\<close> applied at each of the clock readings \<open>ts\<close> in turn: consecutive failures.\<close>

definition failures :: "real list \<Rightarrow> CircuitBreaker \<Rightarrow> CircuitBreaker" where
  "failures ts cb = fold on_failure ts cb"

subsection \<open>Properties of the circuit breaker\<close>

lemma num_val_int_pos:
  "isinstance_int v \<Longrightarrow> 0 < num_val v \<Longrightarrow> 0 < int_val v"
  by (cases v) (auto split: if_splits)

lemma init_inv:
  assumes "CircuitBreaker_init ft tmo rt nm = Inr cb"
  shows "breaker_inv cb \<and> serial_inv cb"
proof -
  from assms have ok: "isinstance_int ft" "0 < num_val ft" "0 < num_val rt"
    by (auto simp: CircuitBreaker_init_def split: if_splits)
  from assms have cb: "failure_threshold cb = int_val ft" "reset_timeout cb = num_val rt"
      "failure_count cb = 0" "state_attr cb = CLOSED"
    by (auto simp: CircuitBreaker_init_def split: if_splits)
  from ok have "0 < int_val ft" by (simp add: num_val_int_pos)
  with ok cb show ?thesis by (simp add: breaker_inv_def serial_inv_def)
qed

lemma update_state_inv: "breaker_inv cb \<Longrightarrow> breaker_inv (update_state now cb)"
  by (auto simp: breaker_inv_def update_state_def split: option.splits if_splits)

lemma on_success_inv: "breaker_inv cb \<Longrightarrow> breaker_inv (on_success cb)"
  by (cases "state_attr cb") (auto simp: breaker_inv_def on_success_def Let_def)

lemma on_failure_inv: "breaker_inv cb \<Longrightarrow> breaker_inv (on_failure now cb)"
  by (cases "state_attr cb") (auto simp: breaker_inv_def on_failure_def Let_def)

lemma reset_inv: "breaker_inv cb \<Longrightarrow> breaker_inv (reset cb)"
  by (auto simp: breaker_inv_def reset_def)

lemma running_inv: "running cb n \<Longrightarrow> breaker_inv cb"
proof (induction rule: running.induct)
  case (constructed ft tmo rt nm cb)
  then show ?case by (simp add: init_inv)
next
  case (state_read cb n now)
  then show ?case by (simp add: update_state_inv)
next
  case (call_entered cb n now)
  then show ?case by (simp add: update_state_inv)
next
  case (call_succeeded cb n)
  then show ?case by (simp add: on_success_inv)
next
  case (call_failed cb n now)
  then show ?case by (simp add: on_failure_inv)
next
  case (call_cancelled cb n)
  then show ?case by simp
next
  case (was_reset cb n)
  then show ?case by (simp add: reset_inv)
qed

lemma update_state_serial_inv:
  "breaker_inv cb \<Longrightarrow> serial_inv cb \<Longrightarrow> serial_inv (update_state now cb)"
  by (auto simp: breaker_inv_def serial_inv_def update_state_def split: option.splits if_splits)

lemma on_success_serial_inv:
  "breaker_inv cb \<Longrightarrow> state_attr cb \<noteq> OPEN \<Longrightarrow> serial_inv (on_success cb)"
  by (cases "state_attr cb") (auto simp: breaker_inv_def serial_inv_def on_success_def Let_def)

lemma on_failure_serial_inv: "serial_inv cb \<Longrightarrow> serial_inv (on_failure now cb)"
  by (cases "state_attr cb") (auto simp: serial_inv_def on_failure_def Let_def)

lemma serial_invs: "serial cb \<Longrightarrow> breaker_inv cb \<and> serial_inv cb"
proof (induction rule: serial.induct)
  case (serial_constructed ft tmo rt nm cb)
  then show ?case by (rule init_inv)
next
  case (serial_state_read cb now)
  then show ?case by (simp add: update_state_inv update_state_serial_inv)
next
  case (serial_call_succeeded cb now)
  then show ?case by (simp add: update_state_inv on_success_inv on_success_serial_inv)
next
  case (serial_call_failed cb now now')
  then show ?case
    by (simp add: update_state_inv update_state_serial_inv on_failure_inv on_failure_serial_inv)
next
  case (serial_was_reset cb)
  then show ?case by (simp add: reset_inv breaker_inv_def serial_inv_def reset_def)
qed

lemma update_state_not_open: "state_attr cb \<noteq> OPEN \<Longrightarrow> update_state now cb = cb"
  by (simp add: update_state_def)

text \<open>Calls that do not overlap are a special case of calls that may.\<close>

lemma serial_running: "serial cb \<Longrightarrow> running cb 0"
proof (induction rule: serial.induct)
  case (serial_constructed ft tmo rt nm cb)
  then show ?case by (rule running.constructed)
next
  case (serial_state_read cb now)
  then show ?case by (simp add: running.state_read)
next
  case (serial_call_succeeded cb now)
  then have "running (update_state now cb) (Suc 0)" by (simp add: running.call_entered)
  then show ?case by (rule running.call_succeeded)
next
  case (serial_call_failed cb now now')
  then have "running (update_state now cb) (Suc 0)" by (simp add: running.call_entered)
  then show ?case by (rule running.call_failed)
next
  case (serial_was_reset cb)
  then show ?case by (simp add: running.was_reset)
qed

text \<open>\<^verbatim>\<open>call\<close> with nothing in between is an entered call that records at once.\<close>

lemma call_running:
  assumes "running cb n" and "call clock func cb w = (r, cb', w')"
  shows "running cb' n"
proof (cases "state_attr (update_state (clock w) cb) = OPEN")
  case True
  with assms(2) have "cb' = update_state (clock w) cb"
    by (auto simp: call_def Let_def)
  with assms(1) show ?thesis by (simp add: running.state_read)
next
  case False
  with assms(1) have entered: "running (update_state (clock w) cb) (Suc n)"
    by (simp add: running.call_entered)
  obtain out w1 where f: "func w = (out, w1)" by (cases "func w")
  show ?thesis
  proof (cases out)
    case (Inr v)
    with False f assms(2) have "cb' = on_success (update_state (clock w) cb)"
      by (auto simp: call_def Let_def)
    with entered show ?thesis by (simp add: running.call_succeeded)
  next
    case (Inl e)
    show ?thesis
    proof (cases "is_Exception e")
      case True
      with Inl False f assms(2)
      have "cb' = on_failure (clock w1) (update_state (clock w) cb)"
        by (auto simp: call_def Let_def)
      with entered show ?thesis by (simp add: running.call_failed)
    next
      case nonexc: False
      with Inl False f assms(2) have "cb' = update_state (clock w) cb"
        by (auto simp: call_def Let_def)
      with entered show ?thesis by (simp add: running.call_cancelled)
    qed
  qed
qed

lemma on_failure_fields:
  "failure_count (on_failure t cb) = failure_count cb + 1"
  "last_failure_time (on_failure t cb) = Some t"
  "failure_threshold (on_failure t cb) = failure_threshold cb"
  "reset_timeout (on_failure t cb) = reset_timeout cb"
  "state_attr (on_failure t cb)
     = (if failure_threshold cb \<le> failure_count cb + 1 then OPEN else state_attr cb)"
  by (simp_all add: on_failure_def Let_def)

lemma failures_fields:
  "failure_count (failures ts cb) = failure_count cb + int (length ts)
   \<and> failure_threshold (failures ts cb) = failure_threshold cb
   \<and> state_attr (failures ts cb)
       = (if ts \<noteq> [] \<and> failure_threshold cb \<le> failure_count cb + int (length ts) then OPEN
          else state_attr cb)"
proof (induction ts arbitrary: cb)
  case Nil
  then show ?case by (simp add: failures_def)
next
  case (Cons t ts)
  have step: "failures (t # ts) cb = failures ts (on_failure t cb)"
    by (simp add: failures_def)
  from Cons [of "on_failure t cb"] show ?case
    unfolding step by (auto simp: on_failure_fields)
qed

lemma state_of_open:
  "state_attr c = OPEN \<Longrightarrow> last_failure_time c = Some t
     \<Longrightarrow> fst (state now c)
         = (if t \<noteq> 0 \<and> reset_timeout c \<le> now - t then HALF_OPEN else OPEN)"
  by (simp add: state_def update_state_def Let_def)

lemma call_rejected:
  "state_attr c = OPEN \<Longrightarrow> last_failure_time c = Some t \<Longrightarrow> clock w - t < reset_timeout c
     \<Longrightarrow> call clock func c w = (Inl (open_error c), c, w)"
  by (simp add: call_def update_state_def Let_def)

lemma call_not_open:
  "state_attr c \<noteq> OPEN
     \<Longrightarrow> call clock func c w
         = (case func w of
              (Inr result, w') \<Rightarrow> (Inr result, on_success c, w')
            | (Inl e, w') \<Rightarrow>
                if is_Exception e then (Inl e, on_failure (clock w') c, w') else (Inl e, c, w'))"
  by (simp add: call_def update_state_not_open Let_def)

text \<open>
  Breakers of one supplier's life, with the settings the orchestrator passes
  (threshold 3, call timeout 30 s, reset timeout 60 s): freshly constructed; after
  failed calls at the clock readings 1001 and 1002; opened by a third at 1003; and after
  the lazy check at 1063.
\<close>

definition cb_fresh :: CircuitBreaker where
  "cb_fresh = \<lparr> failure_threshold = 3, timeout = 30, reset_timeout = 60,
      name = ''cb_rate_hawk'', failure_count = 0, last_failure_time = None,
      state_attr = CLOSED \<rparr>"

definition cb_two_failures :: CircuitBreaker where
  "cb_two_failures = cb_fresh\<lparr>failure_count := 2, last_failure_time := Some 1002\<rparr>"

definition cb_opened :: CircuitBreaker where
  "cb_opened = cb_fresh\<lparr>failure_count := 3, last_failure_time := Some 1003,
      state_attr := OPEN\<rparr>"

definition cb_half_open :: CircuitBreaker where
  "cb_half_open = cb_opened\<lparr>state_attr := HALF_OPEN\<rparr>"

text \<open>
  Two breakers that only overlapping calls produce. Four calls pass the check of the
  fresh breaker at 1000; three of them fail at 1001, 1002 and 1003, which opens it.
  In the first run the fourth call then succeeds (the counter is 0 and the breaker
  stays Open), and the lazy check at 1063 makes it HalfOpen with the counter 0. In the
  second run the lazy check at 1063 comes first and a trial call passes the check;
  while it awaits, the fourth call fails at 1064, which opens the breaker again.
\<close>

definition cb_raced :: CircuitBreaker where
  "cb_raced = cb_opened\<lparr>failure_count := 0, state_attr := HALF_OPEN\<rparr>"

definition cb_reopened :: CircuitBreaker where
  "cb_reopened = cb_opened\<lparr>failure_count := 4, last_failure_time := Some 1064\<rparr>"

lemma strip_cb_rate_hawk: "strip ''cb_rate_hawk'' = ''cb_rate_hawk''"
  by (simp add: strip_def py_isspace_def)

lemma cb_fresh_init:
  "CircuitBreaker_init (PyInt 3) (PyFloat 30) (PyFloat 60) (PyStr ''cb_rate_hawk'') = Inr cb_fresh"
  by (simp add: CircuitBreaker_init_def cb_fresh_def strip_cb_rate_hawk)

lemma cb_fresh_serial: "serial cb_fresh"
  using cb_fresh_init by (rule serial.serial_constructed)

lemma cb_two_failures_serial: "serial cb_two_failures"
proof -
  let ?c1 = "on_failure 1001 (update_state 1001 cb_fresh)"
  have r1: "serial ?c1"
    by (rule serial.serial_call_failed [OF cb_fresh_serial])
       (simp add: update_state_def cb_fresh_def)
  have r2: "serial (on_failure 1002 (update_state 1002 ?c1))"
    by (rule serial.serial_call_failed [OF r1])
       (simp add: update_state_def on_failure_def cb_fresh_def)
  have "on_failure 1002 (update_state 1002 ?c1) = cb_two_failures"
    by (simp add: update_state_def on_failure_def cb_fresh_def cb_two_failures_def)
  with r2 show ?thesis by simp
qed

lemma cb_opened_serial: "serial cb_opened"
proof -
  have r: "serial (on_failure 1003 (update_state 1003 cb_two_failures))"
    by (rule serial.serial_call_failed [OF cb_two_failures_serial])
       (simp add: update_state_def cb_two_failures_def cb_fresh_def)
  have "on_failure 1003 (update_state 1003 cb_two_failures) = cb_opened"
    by (simp add: update_state_def on_failure_def cb_fresh_def cb_two_failures_def
          cb_opened_def)
  with r show ?thesis by simp
qed

lemma cb_half_open_serial: "serial cb_half_open"
proof -
  have "update_state 1063 cb_opened = cb_half_open"
    by (simp add: update_state_def cb_opened_def cb_half_open_def cb_fresh_def)
  with serial.serial_state_read [OF cb_opened_serial, of 1063] show ?thesis by simp
qed

lemma cb_opened_one_awaiting: "running cb_opened 1"
proof -
  have closed: "state_attr cb_fresh \<noteq> OPEN" by (simp add: cb_fresh_def)
  have enter: "running cb_fresh n \<Longrightarrow> running cb_fresh (Suc n)" for n
    using running.call_entered [of cb_fresh n 1000] closed
    by (simp add: update_state_not_open)
  have "running cb_fresh 0" using cb_fresh_init by (rule running.constructed)
  then have "running cb_fresh 4"
    using enter [of 0] enter [of 1] enter [of 2] enter [of 3]
    by (simp add: numeral_eq_Suc)
  then have "running cb_fresh (Suc 3)" by (simp add: numeral_eq_Suc)
  then have "running (on_failure 1001 cb_fresh) 3" by (rule running.call_failed)
  then have "running (on_failure 1001 cb_fresh) (Suc 2)" by (simp add: numeral_eq_Suc)
  then have "running (on_failure 1002 (on_failure 1001 cb_fresh)) 2" by (rule running.call_failed)
  then have "running (on_failure 1002 (on_failure 1001 cb_fresh)) (Suc 1)"
    by (simp add: numeral_eq_Suc)
  then have "running (on_failure 1003 (on_failure 1002 (on_failure 1001 cb_fresh))) 1"
    by (rule running.call_failed)
  moreover have "on_failure 1003 (on_failure 1002 (on_failure 1001 cb_fresh)) = cb_opened"
    by (simp add: on_failure_def cb_fresh_def cb_opened_def)
  ultimately show ?thesis by simp
qed

lemma cb_raced_running: "running cb_raced 0"
proof -
  from cb_opened_one_awaiting have "running cb_opened (Suc 0)" by simp
  then have "running (on_success cb_opened) 0" by (rule running.call_succeeded)
  then have "running (update_state 1063 (on_success cb_opened)) 0" by (rule running.state_read)
  moreover have "update_state 1063 (on_success cb_opened) = cb_raced"
    by (simp add: update_state_def on_success_def cb_opened_def cb_raced_def cb_fresh_def)
  ultimately show ?thesis by simp
qed

lemma cb_reopened_trial_awaiting: "running cb_reopened 1"
proof -
  have "running (update_state 1063 cb_opened) 1"
    using cb_opened_one_awaiting by (rule running.state_read)
  moreover have h: "update_state 1063 cb_opened = cb_half_open"
    by (simp add: update_state_def cb_opened_def cb_half_open_def cb_fresh_def)
  ultimately have "running cb_half_open 1" by simp
  moreover have "state_attr (update_state 1063 cb_half_open) \<noteq> OPEN"
    by (simp add: update_state_def cb_half_open_def)
  ultimately have "running (update_state 1063 cb_half_open) (Suc 1)"
    by (rule running.call_entered)
  then have "running cb_half_open (Suc 1)"
    by (simp add: update_state_def cb_half_open_def)
  then have "running (on_failure 1064 cb_half_open) 1" by (rule running.call_failed)
  moreover have "on_failure 1064 cb_half_open = cb_reopened"
    by (simp add: on_failure_def cb_half_open_def cb_opened_def cb_reopened_def cb_fresh_def)
  ultimately show ?thesis by simp
qed

text \<open>
  Claim C3. Recording a failure counts it: the counter goes up by one and the failure's
  clock reading is kept; the state becomes Open exactly when the counter thereby reaches
  \<open>failure_threshold\<close>, and is unchanged otherwise. So consecutive failures recorded on a
  Closed breaker with the counter 0 leave it Closed while they are fewer than
  \<open>failure_threshold\<close> and Open from then on, and that is what a failed call through a
  Closed breaker records. An attempt made through the breaker after the failure that
  opened it, before \<open>reset_timeout\<close> has passed, is rejected with
  \<open>CircuitBreakerOpenError\<close>: the wrapped function is not applied (the world is returned
  untouched, whatever the function is) and the breaker is unchanged. Recording a success
  sets the counter to zero whatever it was, a Closed breaker stays Closed, and that is
  what a successful call through a Closed breaker records.
\<close>

theorem breaker_opens_at_threshold:
  "failure_count (on_failure t cb) = failure_count cb + 1
   \<and> last_failure_time (on_failure t cb) = Some t
   \<and> state_attr (on_failure t cb)
       = (if failure_threshold cb \<le> failure_count cb + 1 then OPEN else state_attr cb)
   \<and> (state_attr cb = CLOSED \<and> failure_count cb = 0 \<longrightarrow>
        failure_count (failures ts cb) = int (length ts)
        \<and> state_attr (failures ts cb)
            = (if ts \<noteq> [] \<and> failure_threshold cb \<le> int (length ts) then OPEN else CLOSED))
   \<and> (state_attr cb = CLOSED \<and> func w = (Inl e, w') \<and> is_Exception e \<longrightarrow>
        call clock func cb w = (Inl e, on_failure (clock w') cb, w'))
   \<and> (failure_threshold cb \<le> failure_count cb + 1 \<and> clock w - t < reset_timeout cb \<longrightarrow>
        call clock func (on_failure t cb) w
          = (Inl (open_error (on_failure t cb)), on_failure t cb, w)
        \<and> is_CircuitBreakerOpenError (open_error (on_failure t cb)))
   \<and> failure_count (on_success cb) = 0
   \<and> (state_attr cb = CLOSED \<longrightarrow> state_attr (on_success cb) = CLOSED)
   \<and> (state_attr cb = CLOSED \<and> func w = (Inr v, w') \<longrightarrow>
        call clock func cb w = (Inr v, on_success cb, w'))"
proof (intro conjI impI)
  show "failure_count (on_failure t cb) = failure_count cb + 1"
    by (rule on_failure_fields)
  show "last_failure_time (on_failure t cb) = Some t"
    by (rule on_failure_fields)
  show "state_attr (on_failure t cb)
      = (if failure_threshold cb \<le> failure_count cb + 1 then OPEN else state_attr cb)"
    by (rule on_failure_fields)
  show "failure_count (on_success cb) = 0"
    by (simp add: on_success_def Let_def)
next
  assume a: "state_attr cb = CLOSED \<and> failure_count cb = 0"
  with failures_fields [of ts cb] show "failure_count (failures ts cb) = int (length ts)"
    by simp
  from a failures_fields [of ts cb]
  show "state_attr (failures ts cb)
      = (if ts \<noteq> [] \<and> failure_threshold cb \<le> int (length ts) then OPEN else CLOSED)"
    by simp
next
  assume "state_attr cb = CLOSED \<and> func w = (Inl e, w') \<and> is_Exception e"
  then show "call clock func cb w = (Inl e, on_failure (clock w') cb, w')"
    by (simp add: call_not_open)
next
  assume a: "failure_threshold cb \<le> failure_count cb + 1 \<and> clock w - t < reset_timeout cb"
  then have "state_attr (on_failure t cb) = OPEN" "last_failure_time (on_failure t cb) = Some t"
      "clock w - t < reset_timeout (on_failure t cb)"
    by (simp_all add: on_failure_fields)
  then show "call clock func (on_failure t cb) w
      = (Inl (open_error (on_failure t cb)), on_failure t cb, w)"
    by (rule call_rejected)
  show "is_CircuitBreakerOpenError (open_error (on_failure t cb))"
    by (simp add: open_error_def)
next
  assume "state_attr cb = CLOSED"
  then show "state_attr (on_success cb) = CLOSED"
    by (simp add: on_success_def Let_def)
next
  assume "state_attr cb = CLOSED \<and> func w = (Inr v, w')"
  then show "call clock func cb w = (Inr v, on_success cb, w')"
    by (simp add: call_not_open)
qed

theorem breaker_opens_at_threshold_witness:
  "state_attr cb_fresh = CLOSED \<and> failure_count cb_fresh = 0 \<and> failure_threshold cb_fresh = 3
   \<and> failure_count (failures [1001] cb_fresh) = 1
   \<and> state_attr (failures [1001] cb_fresh) = CLOSED
   \<and> failures [1001, 1002] cb_fresh = cb_two_failures
   \<and> failures [1001, 1002, 1003] cb_fresh = cb_opened
   \<and> call (\<lambda>w. w) (\<lambda>w. (Inl TimeoutError :: exn + nat, w + 1)) cb_two_failures (1002::real)
       = (Inl TimeoutError, cb_opened, 1003)
   \<and> call (\<lambda>w. w) (\<lambda>w. (Inr (5::nat), w + 1)) cb_opened (1004::real)
       = (Inl (CircuitBreakerOpenError ''cb_rate_hawk'' 3 60), cb_opened, 1004)
   \<and> call (\<lambda>w. w) (\<lambda>w. (Inr (5::nat), w + 1)) cb_two_failures (1002::real)
       = (Inr 5, cb_two_failures\<lparr>failure_count := 0\<rparr>, 1003)
   \<and> failure_count (on_success (failures [1001] cb_fresh)) = 0
   \<and> state_attr (on_success (failures [1001] cb_fresh)) = CLOSED"
proof -
  have f: "state_attr cb_fresh = CLOSED \<and> failure_count cb_fresh = 0"
      "failure_threshold cb_fresh = 3"
    by (simp_all add: cb_fresh_def)
  have t: "state_attr cb_two_failures = CLOSED" "failure_count cb_two_failures = 2"
      "failure_threshold cb_two_failures = 3" "reset_timeout cb_two_failures = 60"
    by (simp_all add: cb_two_failures_def cb_fresh_def)
  have e2: "failures [1001, 1002] cb_fresh = cb_two_failures"
    by (simp add: failures_def on_failure_def cb_fresh_def cb_two_failures_def)
  have e3: "on_failure 1003 cb_two_failures = cb_opened"
    by (simp add: on_failure_def cb_two_failures_def cb_opened_def cb_fresh_def)
  have e3': "failures [1001, 1002, 1003] cb_fresh = cb_opened"
    by (simp add: failures_def on_failure_def cb_fresh_def cb_opened_def)
  have s: "on_success cb_two_failures = cb_two_failures\<lparr>failure_count := 0\<rparr>"
    by (simp add: on_success_def cb_two_failures_def cb_fresh_def)
  have err: "open_error cb_opened = CircuitBreakerOpenError ''cb_rate_hawk'' 3 60"
    by (simp add: open_error_def cb_opened_def cb_fresh_def py_int_def)
  note closed = breaker_opens_at_threshold
                  [where clock = "\<lambda>w. w" and w = "1002::real" and w' = 1003 and v = 5
                     and e = TimeoutError and ts = "[1001]" and t = 1001]
  from closed [where cb = cb_fresh and func = "\<lambda>w. (Inr (5::nat), w + 1)"] f
  have 1: "failure_count (failures [1001] cb_fresh) = 1"
      "state_attr (failures [1001] cb_fresh) = CLOSED"
    by simp_all
  from closed [where cb = cb_two_failures
                 and func = "\<lambda>w. (Inl TimeoutError :: exn + nat, w + 1)"] t
  have 2: "call (\<lambda>w. w) (\<lambda>w. (Inl TimeoutError :: exn + nat, w + 1)) cb_two_failures (1002::real)
       = (Inl TimeoutError, cb_opened, 1003)"
    by (simp add: e3)
  from breaker_opens_at_threshold
         [where cb = cb_two_failures and clock = "\<lambda>w. w" and w = "1004::real" and t = 1003
            and func = "\<lambda>w. (Inr (5::nat), w + 1)" and w' = 1005 and v = 5
            and e = TimeoutError and ts = "[]"] t
  have 3: "call (\<lambda>w. w) (\<lambda>w. (Inr (5::nat), w + 1)) cb_opened (1004::real)
       = (Inl (CircuitBreakerOpenError ''cb_rate_hawk'' 3 60), cb_opened, 1004)"
    by (simp add: e3 err)
  from closed [where cb = cb_two_failures and func = "\<lambda>w. (Inr (5::nat), w + 1)"] t
  have 4: "call (\<lambda>w. w) (\<lambda>w. (Inr (5::nat), w + 1)) cb_two_failures (1002::real)
       = (Inr 5, cb_two_failures\<lparr>failure_count := 0\<rparr>, 1003)"
    by (simp add: s)
  from closed [where cb = "failures [1001] cb_fresh" and func = "\<lambda>w. (Inr (5::nat), w + 1)"] 1
  have 5: "failure_count (on_success (failures [1001] cb_fresh)) = 0"
      "state_attr (on_success (failures [1001] cb_fresh)) = CLOSED"
    by simp_all
  from f 1 2 3 4 5 e2 e3' show ?thesis by simp
qed

text \<open>
  Claim C4, as stated, fails on breakers that overlapping calls produce. A failed trial
  call on the HalfOpen breaker whose counter a late success has zeroed leaves it
  HalfOpen, with the counter 1 of 3. And a trial call that passed the check of the
  HalfOpen breaker, and succeeds after the failure of an older call has opened the
  breaker again, leaves it Open.
\<close>

theorem breaker_raced_trial_counterexample:
  "running cb_raced 0 \<and> state_attr cb_raced = HALF_OPEN
   \<and> call (\<lambda>w. w) (\<lambda>w. (Inl TimeoutError :: exn + nat, w + 1)) cb_raced (1063::real)
       = (Inl TimeoutError,
          cb_raced\<lparr>failure_count := 1, last_failure_time := Some 1064\<rparr>, 1064)
   \<and> state_attr (cb_raced\<lparr>failure_count := 1, last_failure_time := Some 1064\<rparr>) = HALF_OPEN
   \<and> running cb_half_open 2 \<and> state_attr cb_half_open = HALF_OPEN
   \<and> on_failure 1064 cb_half_open = cb_reopened
   \<and> running cb_reopened 1
   \<and> on_success cb_reopened = cb_reopened\<lparr>failure_count := 0\<rparr>
   \<and> state_attr (on_success cb_reopened) = OPEN"
proof -
  have h: "state_attr cb_raced = HALF_OPEN" by (simp add: cb_raced_def)
  have f: "on_failure 1064 cb_raced = cb_raced\<lparr>failure_count := 1, last_failure_time := Some 1064\<rparr>"
    by (simp add: on_failure_def cb_raced_def cb_opened_def cb_fresh_def)
  have c: "call (\<lambda>w. w) (\<lambda>w. (Inl TimeoutError :: exn + nat, w + 1)) cb_raced (1063::real)
       = (Inl TimeoutError,
          cb_raced\<lparr>failure_count := 1, last_failure_time := Some 1064\<rparr>, 1064)"
    using h by (simp add: call_not_open f)
  have "running (update_state 1063 cb_opened) 1"
    using cb_opened_one_awaiting by (rule running.state_read)
  moreover have "update_state 1063 cb_opened = cb_half_open"
    by (simp add: update_state_def cb_opened_def cb_half_open_def cb_fresh_def)
  ultimately have r1: "running cb_half_open 1" by simp
  have "running (update_state 1063 cb_half_open) (Suc 1)"
    using r1 by (rule running.call_entered) (simp add: update_state_def cb_half_open_def)
  then have r2: "running cb_half_open 2"
    by (simp add: update_state_def cb_half_open_def numeral_2_eq_2)
  have g: "on_failure 1064 cb_half_open = cb_reopened"
    by (simp add: on_failure_def cb_half_open_def cb_opened_def cb_reopened_def cb_fresh_def)
  have s: "on_success cb_reopened = cb_reopened\<lparr>failure_count := 0\<rparr>"
      "state_attr (on_success cb_reopened) = OPEN"
    by (simp_all add: on_success_def cb_reopened_def cb_opened_def)
  from h c r2 g s cb_raced_running cb_reopened_trial_awaiting show ?thesis
    by (simp add: cb_raced_def cb_half_open_def)
qed

text \<open>
  Claim C4, amended. For every breaker of the program, overlapping calls included: if
  it is Open, a last failure is recorded, a read of \<open>state\<close> before \<open>reset_timeout\<close> has
  elapsed since it observes Open, and once \<open>reset_timeout\<close> has elapsed since it, the next
  read of \<open>state\<close> observes HalfOpen; the clock readings are those of \<^verbatim>\<open>time.time()\<close>,
  seconds since 1970, hence not zero. Only the lazy check moves an Open breaker to
  HalfOpen: recording a failure leaves it Open, and \<^verbatim>\<open>reset\<close> closes it. If it is HalfOpen, recording a success leaves it Closed
  with the counter 0, and that is what a successful trial call does when nothing else
  touches the breaker between its check and its end. If it is HalfOpen, recording a
  failure leaves it Open exactly when the counter thereby reaches \<open>failure_threshold\<close>,
  and HalfOpen otherwise; when it does, the failure's clock reading is the last failure
  time, so that later reads stay Open until \<open>reset_timeout\<close> has elapsed since that
  reading and observe HalfOpen from then on. The counter of a breaker that is not Closed
  is at least \<open>failure_threshold\<close> whenever the calls on it have not overlapped. A
  success recorded on an Open breaker zeroes the counter and leaves it Open.
\<close>

theorem breaker_half_open_cycle:
  assumes run: "running cb n"
  shows "(state_attr cb = OPEN \<longrightarrow>
            (\<exists>t. last_failure_time cb = Some t
                 \<and> (t \<noteq> 0 \<and> reset_timeout cb \<le> now - t \<longrightarrow> fst (state now cb) = HALF_OPEN)
                 \<and> (now - t < reset_timeout cb \<longrightarrow> fst (state now cb) = OPEN)))
       \<and> (state_attr cb = OPEN \<longrightarrow>
            state_attr (on_failure t cb) = OPEN \<and> state_attr (reset cb) = CLOSED)
       \<and> (state_attr cb = HALF_OPEN \<longrightarrow>
            state_attr (on_success cb) = CLOSED \<and> failure_count (on_success cb) = 0)
       \<and> (state_attr cb = HALF_OPEN \<and> func w = (Inr v, w') \<longrightarrow>
            call clock func cb w = (Inr v, on_success cb, w'))
       \<and> (state_attr cb = HALF_OPEN \<longrightarrow>
            state_attr (on_failure t cb)
              = (if failure_threshold cb \<le> failure_count cb + 1 then OPEN else HALF_OPEN))
       \<and> (state_attr cb = HALF_OPEN \<and> func w = (Inl e, w') \<and> is_Exception e \<longrightarrow>
            call clock func cb w = (Inl e, on_failure (clock w') cb, w'))
       \<and> (state_attr cb = HALF_OPEN \<and> failure_threshold cb \<le> failure_count cb + 1 \<longrightarrow>
            state_attr (on_failure t cb) = OPEN
            \<and> last_failure_time (on_failure t cb) = Some t
            \<and> reset_timeout (on_failure t cb) = reset_timeout cb
            \<and> fst (state now (on_failure t cb))
                = (if t \<noteq> 0 \<and> reset_timeout cb \<le> now - t then HALF_OPEN else OPEN))
       \<and> (serial cb \<and> state_attr cb \<noteq> CLOSED \<longrightarrow> failure_threshold cb \<le> failure_count cb)
       \<and> (state_attr cb = OPEN \<longrightarrow>
            state_attr (on_success cb) = OPEN \<and> failure_count (on_success cb) = 0)"
proof (intro conjI impI)
  assume op: "state_attr cb = OPEN"
  from running_inv [OF run] op obtain t where t: "last_failure_time cb = Some t"
    by (auto simp: breaker_inv_def)
  from op t have "t \<noteq> 0 \<and> reset_timeout cb \<le> now - t \<longrightarrow> fst (state now cb) = HALF_OPEN"
    "now - t < reset_timeout cb \<longrightarrow> fst (state now cb) = OPEN"
    by (simp_all add: state_of_open)
  with t show "\<exists>t. last_failure_time cb = Some t
      \<and> (t \<noteq> 0 \<and> reset_timeout cb \<le> now - t \<longrightarrow> fst (state now cb) = HALF_OPEN)
      \<and> (now - t < reset_timeout cb \<longrightarrow> fst (state now cb) = OPEN)"
    by blast
next
  assume "state_attr cb = OPEN"
  then show "state_attr (on_failure t cb) = OPEN" "state_attr (reset cb) = CLOSED"
    by (simp_all add: on_failure_fields reset_def)
next
  assume "state_attr cb = HALF_OPEN"
  then show "state_attr (on_success cb) = CLOSED" "failure_count (on_success cb) = 0"
    by (simp_all add: on_success_def Let_def)
next
  assume "state_attr cb = HALF_OPEN \<and> func w = (Inr v, w')"
  then show "call clock func cb w = (Inr v, on_success cb, w')"
    by (simp add: call_not_open)
next
  assume "state_attr cb = HALF_OPEN"
  then show "state_attr (on_failure t cb)
      = (if failure_threshold cb \<le> failure_count cb + 1 then OPEN else HALF_OPEN)"
    by (simp add: on_failure_fields)
next
  assume "state_attr cb = HALF_OPEN \<and> func w = (Inl e, w') \<and> is_Exception e"
  then show "call clock func cb w = (Inl e, on_failure (clock w') cb, w')"
    by (simp add: call_not_open)
next
  assume a: "state_attr cb = HALF_OPEN \<and> failure_threshold cb \<le> failure_count cb + 1"
  then show f: "state_attr (on_failure t cb) = OPEN"
      "last_failure_time (on_failure t cb) = Some t"
      "reset_timeout (on_failure t cb) = reset_timeout cb"
    by (simp_all add: on_failure_fields)
  from state_of_open [OF f(1) f(2), of now] f(3)
  show "fst (state now (on_failure t cb))
      = (if t \<noteq> 0 \<and> reset_timeout cb \<le> now - t then HALF_OPEN else OPEN)"
    by simp
next
  assume "serial cb \<and> state_attr cb \<noteq> CLOSED"
  with serial_invs [of cb] show "failure_threshold cb \<le> failure_count cb"
    by (simp add: serial_inv_def)
next
  assume "state_attr cb = OPEN"
  then show "state_attr (on_success cb) = OPEN" "failure_count (on_success cb) = 0"
    by (simp_all add: on_success_def Let_def)
qed

theorem breaker_half_open_cycle_witness:
  "running cb_opened 0 \<and> state_attr cb_opened = OPEN
   \<and> last_failure_time cb_opened = Some 1003
   \<and> fst (state 1062 cb_opened) = OPEN
   \<and> fst (state 1063 cb_opened) = HALF_OPEN
   \<and> running cb_half_open 0 \<and> serial cb_half_open \<and> state_attr cb_half_open = HALF_OPEN
   \<and> failure_threshold cb_half_open \<le> failure_count cb_half_open
   \<and> call (\<lambda>w. w) (\<lambda>w. (Inr (5::nat), w + 1)) cb_half_open (1063::real)
       = (Inr 5, cb_half_open\<lparr>failure_count := 0, state_attr := CLOSED\<rparr>, 1064)
   \<and> call (\<lambda>w. w) (\<lambda>w. (Inl TimeoutError :: exn + nat, w + 1)) cb_half_open (1063::real)
       = (Inl TimeoutError, cb_reopened, 1064)
   \<and> state_attr cb_reopened = OPEN
   \<and> fst (state 1123 cb_reopened) = OPEN
   \<and> fst (state 1124 cb_reopened) = HALF_OPEN
   \<and> running cb_raced 0 \<and> state_attr cb_raced = HALF_OPEN
   \<and> state_attr (on_failure 1064 cb_raced) = HALF_OPEN
   \<and> running cb_reopened 1
   \<and> state_attr (on_success cb_reopened) = OPEN \<and> failure_count (on_success cb_reopened) = 0"
proof -
  have o: "state_attr cb_opened = OPEN" "last_failure_time cb_opened = Some 1003"
      "reset_timeout cb_opened = 60"
    by (simp_all add: cb_opened_def cb_fresh_def)
  have h: "state_attr cb_half_open = HALF_OPEN" "failure_threshold cb_half_open = 3"
      "failure_count cb_half_open = 3" "reset_timeout cb_half_open = 60"
    by (simp_all add: cb_half_open_def cb_opened_def cb_fresh_def)
  have rc: "state_attr cb_raced = HALF_OPEN" "failure_threshold cb_raced = 3"
      "failure_count cb_raced = 0"
    by (simp_all add: cb_raced_def cb_opened_def cb_fresh_def)
  have ro: "state_attr cb_reopened = OPEN"
    by (simp add: cb_reopened_def cb_opened_def)
  have s: "on_success cb_half_open = cb_half_open\<lparr>failure_count := 0, state_attr := CLOSED\<rparr>"
    by (simp add: on_success_def cb_half_open_def)
  have f: "on_failure 1064 cb_half_open = cb_reopened"
    by (simp add: on_failure_def cb_half_open_def cb_opened_def cb_reopened_def cb_fresh_def)
  note r_open = serial_running [OF cb_opened_serial]
  note r_half = serial_running [OF cb_half_open_serial]
  note at = breaker_half_open_cycle
               [where clock = "\<lambda>w. w" and w = "1063::real" and w' = 1064 and v = 5
                  and e = TimeoutError and t = 1064]
  from at [OF r_open, where now = 1063 and func = "\<lambda>w. (Inr (5::nat), w + 1)"] o
  have w1: "fst (state 1063 cb_opened) = HALF_OPEN" by simp
  from at [OF r_open, where now = 1062 and func = "\<lambda>w. (Inr (5::nat), w + 1)"] o
  have w0: "fst (state 1062 cb_opened) = OPEN" by simp
  from at [OF r_half, where now = 1123 and func = "\<lambda>w. (Inr (5::nat), w + 1)"] h
  have c1: "call (\<lambda>w. w) (\<lambda>w. (Inr (5::nat), w + 1)) cb_half_open (1063::real)
       = (Inr 5, cb_half_open\<lparr>failure_count := 0, state_attr := CLOSED\<rparr>, 1064)"
    by (simp add: s)
  from at [OF r_half, where now = 1123
             and func = "\<lambda>w. (Inl TimeoutError :: exn + nat, w + 1)"] h
  have c2: "call (\<lambda>w. w) (\<lambda>w. (Inl TimeoutError :: exn + nat, w + 1)) cb_half_open (1063::real)
       = (Inl TimeoutError, cb_reopened, 1064)"
    and w2: "fst (state 1123 cb_reopened) = OPEN"
    by (simp_all add: f)
  from at [OF r_half, where now = 1124 and func = "\<lambda>w. (Inr (5::nat), w + 1)"] h
  have w3: "fst (state 1124 cb_reopened) = HALF_OPEN" by (simp add: f)
  from at [OF r_half, where now = 1124 and func = "\<lambda>w. (Inr (5::nat), w + 1)"] h
    cb_half_open_serial
  have w4: "failure_threshold cb_half_open \<le> failure_count cb_half_open" by simp
  from at [OF cb_raced_running, where now = 1124 and func = "\<lambda>w. (Inr (5::nat), w + 1)"] rc
  have w5: "state_attr (on_failure 1064 cb_raced) = HALF_OPEN" by simp
  from at [OF cb_reopened_trial_awaiting, where now = 1124
             and func = "\<lambda>w. (Inr (5::nat), w + 1)"] ro
  have w6: "state_attr (on_success cb_reopened) = OPEN"
      "failure_count (on_success cb_reopened) = 0"
    by simp_all
  from o h(1) rc(1) ro c1 c2 w0 w1 w2 w3 w4 w5 w6 r_open r_half cb_half_open_serial
    cb_raced_running cb_reopened_trial_awaiting
  show ?thesis by simp
qed

text \<open>
  Claim C8, as stated, fails: with all three numeric parameters positive the constructor
  still raises when the name is blank.
\<close>

theorem init_blank_name_counterexample:
  "(0::int) < 3 \<and> (0::real) < 30 \<and> (0::real) < 60
   \<and> CircuitBreaker_init (PyInt 3) (PyFloat 30) (PyFloat 60) (PyStr '' '')
       = Inl (ValueError ''name must be a non-empty string'')"
  by (simp add: CircuitBreaker_init_def strip_def py_isspace_def)

text \<open>
  Claim C8, amended. For an integer \<open>failure_threshold\<close>, numeric \<open>timeout\<close> and
  \<open>reset_timeout\<close> and a string \<open>name\<close>, the constructor raises \<open>ValueError\<close> exactly
  when one of the three numbers is not positive or the name is blank after stripping;
  otherwise it returns a Closed breaker with counter 0, no last failure and the given
  parameters. With the default name it raises exactly when one of the three numbers is
  not positive.
\<close>

theorem init_validates:
  assumes "isinstance_int ft" and "isinstance_int_float tmo" and "isinstance_int_float rt"
    and "isinstance_str nm"
  shows "((\<exists>m. CircuitBreaker_init ft tmo rt nm = Inl (ValueError m))
           = (num_val ft \<le> 0 \<or> num_val tmo \<le> 0 \<or> num_val rt \<le> 0 \<or> strip (str_val nm) = []))
       \<and> ((CircuitBreaker_init ft tmo rt nm
             = Inr \<lparr> failure_threshold = int_val ft, timeout = num_val tmo,
                     reset_timeout = num_val rt, name = strip (str_val nm),
                     failure_count = 0, last_failure_time = None, state_attr = CLOSED \<rparr>)
           = (0 < num_val ft \<and> 0 < num_val tmo \<and> 0 < num_val rt \<and> strip (str_val nm) \<noteq> []))
       \<and> (isl (CircuitBreaker_init ft tmo rt default_name)
           = (num_val ft \<le> 0 \<or> num_val tmo \<le> 0 \<or> num_val rt \<le> 0))"
proof -
  have d: "isinstance_str default_name" "strip (str_val default_name) \<noteq> []"
    by (simp_all add: default_name_def strip_def py_isspace_def)
  from assms show ?thesis
    by (auto simp: CircuitBreaker_init_def d)
qed

theorem init_validates_witness:
  "CircuitBreaker_init (PyInt 3) (PyFloat 30) (PyFloat 60) (PyStr ''cb_rate_hawk'') = Inr cb_fresh
   \<and> CircuitBreaker_init (PyInt 0) (PyFloat 30) (PyFloat 60) (PyStr ''cb_rate_hawk'')
       = Inl (ValueError ''failure_threshold must be a positive integer'')
   \<and> CircuitBreaker_init (PyInt 3) (PyInt (-1)) (PyFloat 60) (PyStr ''cb_rate_hawk'')
       = Inl (ValueError ''timeout must be a positive number'')
   \<and> CircuitBreaker_init (PyInt 3) (PyFloat 30) (PyFloat 0) (PyStr ''cb_rate_hawk'')
       = Inl (ValueError ''reset_timeout must be a positive number'')
   \<and> \<not> isl (CircuitBreaker_init (PyInt 3) (PyFloat 30) (PyFloat 60) default_name)"
proof -
  have t: "isinstance_int (PyInt 3)" "isinstance_int_float (PyFloat 30)"
      "isinstance_int_float (PyFloat 60)" "isinstance_str (PyStr ''cb_rate_hawk'')"
    by simp_all
  from init_validates [OF t]
  have "\<not> isl (CircuitBreaker_init (PyInt 3) (PyFloat 30) (PyFloat 60) default_name)"
    by simp
  then show ?thesis
    by (simp add: CircuitBreaker_init_def cb_fresh_def strip_cb_rate_hawk)
qed

section \<open>The orchestrator (app/services/universal\_provider.py)\<close>

subsection \<open>Data\<close>

text \<open>
  The search criteria are a \<^verbatim>\<open>dict\<close> built by the HTTP front end from a validated
  request; these are the keys the orchestrator reads. \<open>None\<close> is an absent key (or the
  value \<^verbatim>\<open>None\<close>, which \<^verbatim>\<open>criteria.get\<close> and the truth tests treat alike, except for
  \<open>search_timeout\<close>, which the front end never sets).
\<close>

record criteria =
  crit_hotel_names :: "string list option"
  crit_providers :: "string list option"
  crit_meal_types :: "string list option"
  crit_room_category :: "string option"
  crit_search_timeout :: "real option"

text \<open>The texts of the \<^verbatim>\<open>error\<close> entries: the f-strings of the source, by template and arguments.\<close>

datatype error_text =
    NotAvailable string
  | ProtectionActive string
  | ProtectionTriggered string
  | ResponseTimeout string int
  | ServiceError string int
  | StrOf exn
  | CancelledDuringTimeout
  | TimedOutAfter real
  | UnexpectedError exn

text \<open>
  The mapping a unit returns for one supplier. Its keys differ from one return
  statement to the other; a key that is not set is \<open>None\<close>.
\<close>

record SupplierOutcome =
  status :: string
  provider :: "string option"
  error :: "error_text option"
  offers :: "pyval list"
  offer_count :: "nat option"
  processing_time_ms :: "int option"
  attempts :: "nat option"
  circuit_breaker_state :: "string option"

text \<open>
  An adapter: \<^verbatim>\<open>search\<close> is a coroutine acting on the outside world, the other two are
  plain functions; each of them may raise.
\<close>

record 'w ProviderAdapter =
  prepare_meal_type_criteria :: "criteria \<Rightarrow> exn + criteria"
  search :: "criteria \<Rightarrow> 'w \<Rightarrow> (exn + pyval) \<times> 'w"
  normalize :: "pyval \<Rightarrow> criteria \<Rightarrow> exn + pyval list"

text \<open>
  The three operations of the meal-type service (app/services/meal\_mapping.py) the
  orchestrator calls: lookups in translation tables, taken as given.
\<close>

record meal_type_service =
  should_filter_at_response_level :: "string \<Rightarrow> string \<Rightarrow> exn + bool"
  filter_offers_by_any_meal_type :: "string \<Rightarrow> pyval list \<Rightarrow> string list \<Rightarrow> exn + pyval list"
  normalize_offers_meal_plans :: "pyval list \<Rightarrow> string \<Rightarrow> exn + pyval list"

record 'w UniversalProvider =
  adapters :: "(string \<times> 'w ProviderAdapter) list"
  circuit_breakers :: "string \<Rightarrow> CircuitBreaker option"

text \<open>
  What the interpreter provides: \<^verbatim>\<open>time.time()\<close> and \<^verbatim>\<open>await asyncio.sleep(d)\<close>, on
  the outside world, and \<^verbatim>\<open>str.lower()\<close>, the case mapping of Unicode, taken as given.
\<close>

record 'w runtime =
  time_time :: "'w \<Rightarrow> real"
  asyncio_sleep :: "real \<Rightarrow> 'w \<Rightarrow> 'w"
  str_lower :: "string \<Rightarrow> string"

text \<open>The retry settings of app/config.py.\<close>

record config =
  MAX_RETRIES :: int
  RETRY_BASE_DELAY :: real

definition Config :: config where
  "Config = \<lparr> MAX_RETRIES = 3, RETRY_BASE_DELAY = 1 \<rparr>"

text \<open>What one unit did, in order: each attempt with what it raised, each sleep with its delay.\<close>

datatype event = Attempted "exn option" | Slept real

text \<open>
  What a world can keep of what was done to it: that an adapter's \<^verbatim>\<open>search\<close> ran, and that
  \<^verbatim>\<open>asyncio.sleep\<close> ran with a delay.
\<close>

datatype effect = Searched | Waited real

subsection \<open>Filtering of the normalized offers\<close>

fun py_get :: "pyval \<Rightarrow> string \<Rightarrow> pyval \<Rightarrow> exn + pyval" where
  "py_get (PyDict kvs) k dflt = Inr (case map_of kvs k of None \<Rightarrow> dflt | Some v \<Rightarrow> v)"
| "py_get _ k dflt = Inl (AttributeError ''get'')"

text \<open>
  \<^verbatim>\<open>any(should_filter_at_response_level(provider_name, m) for m in meal_types if m)\<close>:
  empty entries are skipped, and the first \<^verbatim>\<open>True\<close> ends the search.
\<close>

fun needs_response_filtering :: "(string \<Rightarrow> exn + bool) \<Rightarrow> string list \<Rightarrow> exn + bool" where
  "needs_response_filtering f [] = Inr False"
| "needs_response_filtering f (m # ms) =
     (if m = [] then needs_response_filtering f ms
      else (case f m of
              Inl e \<Rightarrow> Inl e
            | Inr b \<Rightarrow> if b then Inr True else needs_response_filtering f ms))"

definition filter_meal_types ::
  "meal_type_service \<Rightarrow> string \<Rightarrow> criteria \<Rightarrow> pyval list \<Rightarrow> exn + pyval list" where
  "filter_meal_types svc provider_name crit normalized_offers =
     (case crit_meal_types crit of
        None \<Rightarrow> Inr normalized_offers
      | Some meal_types \<Rightarrow>
          if meal_types = [] then Inr normalized_offers
          else
            (case needs_response_filtering
                    (should_filter_at_response_level svc provider_name) meal_types of
               Inl e \<Rightarrow> Inl e
             | Inr needed \<Rightarrow>
                 if needed
                 then filter_offers_by_any_meal_type svc provider_name normalized_offers meal_types
                 else Inr normalized_offers))"

text \<open>
  The loop over the offers that keeps those of the requested room category. An offer
  that is no \<^verbatim>\<open>dict\<close>, or whose \<open>room_category\<close> is no string, raises.
\<close>

fun filter_room_category_loop ::
  "(string \<Rightarrow> string) \<Rightarrow> string \<Rightarrow> pyval list \<Rightarrow> exn + pyval list" where
  "filter_room_category_loop lower room_category [] = Inr []"
| "filter_room_category_loop lower room_category (offer # rest) =
     (case py_get offer ''room_category'' (PyStr []) of
        Inl e \<Rightarrow> Inl e
      | Inr (PyStr s) \<Rightarrow>
          (case filter_room_category_loop lower room_category rest of
             Inl e \<Rightarrow> Inl e
           | Inr filtered_offers \<Rightarrow>
               Inr (if lower (strip s) = lower room_category
                    then offer # filtered_offers else filtered_offers))
      | Inr _ \<Rightarrow> Inl (AttributeError ''strip''))"

definition filter_room_category ::
  "'w runtime \<Rightarrow> criteria \<Rightarrow> pyval list \<Rightarrow> exn + pyval list" where
  "filter_room_category rt crit normalized_offers =
     (case crit_room_category crit of
        None \<Rightarrow> Inr normalized_offers
      | Some room_category \<Rightarrow>
          if room_category = [] then Inr normalized_offers
          else filter_room_category_loop (str_lower rt) room_category normalized_offers)"

text \<open>What the \<^verbatim>\<open>try\<close> block does with a raw response, up to the offers it returns.\<close>

definition post_process ::
  "'w runtime \<Rightarrow> meal_type_service \<Rightarrow> 'w ProviderAdapter \<Rightarrow> string \<Rightarrow> criteria \<Rightarrow> pyval
     \<Rightarrow> exn + pyval list" where
  "post_process rt svc adapter provider_name crit raw_response =
     (case normalize adapter raw_response crit of
        Inl e \<Rightarrow> Inl e
      | Inr normalized_offers \<Rightarrow>
          (case filter_meal_types svc provider_name crit normalized_offers of
             Inl e \<Rightarrow> Inl e
           | Inr offers1 \<Rightarrow>
               (case filter_room_category rt crit offers1 of
                  Inl e \<Rightarrow> Inl e
                | Inr offers2 \<Rightarrow> normalize_offers_meal_plans svc offers2 provider_name)))"

subsection \<open>One unit: \<^verbatim>\<open>search_single\<close>\<close>

text \<open>
  \<^verbatim>\<open>circuit_breaker.state.value if circuit_breaker else "disabled"\<close>: reading the state
  runs the lazy check.
\<close>

definition breaker_state_value ::
  "real \<Rightarrow> CircuitBreaker option \<Rightarrow> string \<times> CircuitBreaker option" where
  "breaker_state_value now cbo =
     (case cbo of
        None \<Rightarrow> (''disabled'', None)
      | Some cb \<Rightarrow> (case state now cb of (st, cb') \<Rightarrow> (state_value st, Some cb')))"

definition elapsed_ms :: "'w runtime \<Rightarrow> real \<Rightarrow> 'w \<Rightarrow> int" where
  "elapsed_ms rt start_time w = py_int ((time_time rt w - start_time) * 1000)"

text \<open>
  The body of the \<^verbatim>\<open>try\<close> block of one attempt: the criteria are prepared, the
  adapter's search runs through the breaker (or directly when the supplier has none),
  and the response is normalized and filtered. It yields the offers or the exception
  raised on the way.
\<close>

definition attempt_body ::
  "'w runtime \<Rightarrow> meal_type_service \<Rightarrow> 'w ProviderAdapter \<Rightarrow> string \<Rightarrow> criteria
     \<Rightarrow> CircuitBreaker option \<Rightarrow> 'w \<Rightarrow> (exn + pyval list) \<times> CircuitBreaker option \<times> 'w" where
  "attempt_body rt svc adapter provider_name crit cbo w =
     (case prepare_meal_type_criteria adapter crit of
        Inl e \<Rightarrow> (Inl e, cbo, w)
      | Inr provider_criteria \<Rightarrow>
          (case (case cbo of
                   Some cb \<Rightarrow>
                     (case call (time_time rt) (search adapter provider_criteria) cb w of
                        (r, cb', w') \<Rightarrow> (r, Some cb', w'))
                 | None \<Rightarrow>
                     (case search adapter provider_criteria w of
                        (r, w') \<Rightarrow> (r, None, w'))) of
             (Inl e, cbo', w') \<Rightarrow> (Inl e, cbo', w')
           | (Inr raw_response, cbo', w') \<Rightarrow>
               (post_process rt svc adapter provider_name crit raw_response, cbo', w')))"

text \<open>
  The loop \<^verbatim>\<open>for attempt in range(max_retries)\<close>: \<open>n\<close> iterations are left and the next
  one has the index \<open>attempt\<close>. The handlers stand in the order of the source:
  \<^verbatim>\<open>CircuitBreakerOpenError\<close>, \<^verbatim>\<open>asyncio.TimeoutError\<close>, \<^verbatim>\<open>Exception\<close>; what none of them
  catches leaves the function. A loop that runs out of iterations falls off the end of
  the function, which then returns \<^verbatim>\<open>None\<close>. The last component lists what the unit did.
\<close>

fun retry_loop ::
  "'w runtime \<Rightarrow> config \<Rightarrow> meal_type_service \<Rightarrow> 'w ProviderAdapter \<Rightarrow> string \<Rightarrow> criteria
     \<Rightarrow> real \<Rightarrow> nat \<Rightarrow> nat \<Rightarrow> CircuitBreaker option \<Rightarrow> 'w
     \<Rightarrow> (exn + SupplierOutcome option) \<times> CircuitBreaker option \<times> 'w \<times> event list" where
  "retry_loop rt cfg svc adapter provider_name crit start_time 0 attempt cbo w =
     (Inr None, cbo, w, [])"
| "retry_loop rt cfg svc adapter provider_name crit start_time (Suc n) attempt cbo w =
     (case attempt_body rt svc adapter provider_name crit cbo w of
        (Inr normalized_offers, cbo1, w1) \<Rightarrow>
          (case breaker_state_value (time_time rt w1) cbo1 of
             (sv, cbo2) \<Rightarrow>
               (Inr (Some \<lparr> status = ''success'', provider = Some provider_name,
                       error = None, offers = normalized_offers,
                       offer_count = Some (length normalized_offers),
                       processing_time_ms = Some (elapsed_ms rt start_time w1),
                       attempts = Some (attempt + 1),
                       circuit_breaker_state = Some sv \<rparr>),
                cbo2, w1, [Attempted None]))
      | (Inl e, cbo1, w1) \<Rightarrow>
          if is_CircuitBreakerOpenError e then
            (Inr (Some \<lparr> status = ''error'', provider = Some provider_name,
                    error = Some (ProtectionTriggered provider_name), offers = [],
                    offer_count = None,
                    processing_time_ms = Some (elapsed_ms rt start_time w1),
                    attempts = None, circuit_breaker_state = Some ''open'' \<rparr>),
             cbo1, w1, [Attempted (Some e)])
          else if e = TimeoutError then
            (if int attempt < MAX_RETRIES cfg - 1 then
               (let delay = RETRY_BASE_DELAY cfg * 2 ^ attempt;
                    w2 = asyncio_sleep rt delay w1
                in case retry_loop rt cfg svc adapter provider_name crit start_time
                          n (attempt + 1) cbo1 w2 of
                     (r, cbo3, w3, tr) \<Rightarrow> (r, cbo3, w3, Attempted (Some e) # Slept delay # tr))
             else
               (case breaker_state_value (time_time rt w1) cbo1 of
                  (sv, cbo2) \<Rightarrow>
                    (Inr (Some \<lparr> status = ''error'', provider = Some provider_name,
                            error = Some (ResponseTimeout provider_name (MAX_RETRIES cfg)),
                            offers = [], offer_count = None,
                            processing_time_ms = Some (elapsed_ms rt start_time w1),
                            attempts = None, circuit_breaker_state = Some sv \<rparr>),
                     cbo2, w1, [Attempted (Some e)])))
          else if is_Exception e then
            (if int attempt < MAX_RETRIES cfg - 1 then
               (let delay = RETRY_BASE_DELAY cfg * 2 ^ attempt;
                    w2 = asyncio_sleep rt delay w1
                in case retry_loop rt cfg svc adapter provider_name crit start_time
                          n (attempt + 1) cbo1 w2 of
                     (r, cbo3, w3, tr) \<Rightarrow> (r, cbo3, w3, Attempted (Some e) # Slept delay # tr))
             else
               (case breaker_state_value (time_time rt w1) cbo1 of
                  (sv, cbo2) \<Rightarrow>
                    (Inr (Some \<lparr> status = ''error'', provider = Some provider_name,
                            error = Some (ServiceError provider_name (MAX_RETRIES cfg)),
                            offers = [], offer_count = None,
                            processing_time_ms = Some (elapsed_ms rt start_time w1),
                            attempts = None, circuit_breaker_state = Some sv \<rparr>),
                     cbo2, w1, [Attempted (Some e)])))
          else (Inl e, cbo1, w1, [Attempted (Some e)]))"

text \<open>
  \<^verbatim>\<open>search_single\<close>. It returns what the coroutine returns or raises, the orchestrator
  with the supplier's breaker as the unit left it, the world, and what the unit did.
\<close>

definition search_single ::
  "'w runtime \<Rightarrow> config \<Rightarrow> meal_type_service \<Rightarrow> 'w UniversalProvider \<Rightarrow> string \<Rightarrow> criteria
     \<Rightarrow> 'w \<Rightarrow> (exn + SupplierOutcome option) \<times> 'w UniversalProvider \<times> 'w \<times> event list" where
  "search_single rt cfg svc self provider_name crit w =
     (case map_of (adapters self) provider_name of
        None \<Rightarrow>
          (Inr (Some \<lparr> status = ''error'', provider = None,
                  error = Some (NotAvailable provider_name), offers = [],
                  offer_count = None, processing_time_ms = None, attempts = None,
                  circuit_breaker_state = None \<rparr>),
           self, w, [])
      | Some adapter \<Rightarrow>
          (let circuit_breaker = circuit_breakers self provider_name;
               start_time = time_time rt w;
               checked = (case circuit_breaker of
                            None \<Rightarrow> None
                          | Some cb \<Rightarrow> Some (state (time_time rt w) cb))
           in case checked of
                Some (OPEN, cb1) \<Rightarrow>
                  (case state (time_time rt w) cb1 of
                     (st, cb2) \<Rightarrow>
                       (Inr (Some \<lparr> status = ''error'', provider = Some provider_name,
                               error = Some (ProtectionActive provider_name), offers = [],
                               offer_count = None,
                               processing_time_ms = Some (elapsed_ms rt start_time w),
                               attempts = None,
                               circuit_breaker_state = Some (state_value st) \<rparr>),
                        self\<lparr>circuit_breakers := (circuit_breakers self)(provider_name := Some cb2)\<rparr>,
                        w, []))
              | _ \<Rightarrow>
                  (case retry_loop rt cfg svc adapter provider_name crit start_time
                          (nat (MAX_RETRIES cfg)) 0 (map_option snd checked) w of
                     (r, cbo, w', tr) \<Rightarrow>
                       (r, self\<lparr>circuit_breakers := (circuit_breakers self)(provider_name := cbo)\<rparr>,
                        w', tr))))"

text \<open>What a unit's record of events says: the delays slept, and the attempts made.\<close>

fun sleeps :: "event list \<Rightarrow> real list" where
  "sleeps [] = []"
| "sleeps (Slept d # tr) = d # sleeps tr"
| "sleeps (Attempted _ # tr) = sleeps tr"

fun attempts_made :: "event list \<Rightarrow> nat" where
  "attempts_made [] = 0"
| "attempts_made (Attempted _ # tr) = Suc (attempts_made tr)"
| "attempts_made (Slept _ # tr) = attempts_made tr"

text \<open>
  Retries happen only on transient failures: every sleep, and the attempt after it,
  directly follows an attempt that raised an \<^verbatim>\<open>Exception\<close> other than the breaker's
  rejection, and nothing follows a success, a rejection or a cancellation.
\<close>

fun retries_follow_transient :: "event list \<Rightarrow> bool" where
  "retries_follow_transient [] = True"
| "retries_follow_transient [Attempted _] = True"
| "retries_follow_transient (Attempted (Some e) # Slept d # tr) =
     (is_Exception e \<and> \<not> is_CircuitBreakerOpenError e \<and> retries_follow_transient tr)"
| "retries_follow_transient _ = False"

text \<open>
  What a world's record of effects says: the delays waited, the number of searches, and
  whether the effects come in rounds, each an optional search followed by a wait of
  \<open>base_delay * 2 ^ k\<close> for \<open>k\<close> counting up from \<open>attempt\<close>, with an optional search
  at the end.
\<close>

fun waits :: "effect list \<Rightarrow> real list" where
  "waits [] = []"
| "waits (Waited d # es) = d # waits es"
| "waits (Searched # es) = waits es"

fun searches :: "effect list \<Rightarrow> nat" where
  "searches [] = 0"
| "searches (Searched # es) = Suc (searches es)"
| "searches (Waited _ # es) = searches es"

fun rounds :: "real \<Rightarrow> nat \<Rightarrow> effect list \<Rightarrow> bool" where
  "rounds base_delay attempt [] = True"
| "rounds base_delay attempt [Searched] = True"
| "rounds base_delay attempt (Waited d # es) =
     (d = base_delay * 2 ^ attempt \<and> rounds base_delay (attempt + 1) es)"
| "rounds base_delay attempt (Searched # Waited d # es) =
     (d = base_delay * 2 ^ attempt \<and> rounds base_delay (attempt + 1) es)"
| "rounds base_delay attempt (Searched # Searched # es) = False"

subsection \<open>The fan-out: \<^verbatim>\<open>search_all\<close>\<close>

text \<open>\<^verbatim>\<open>d[k] = v\<close> on a \<^verbatim>\<open>dict\<close>: a known key keeps its place, a new key goes last.\<close>

fun dict_set :: "'k \<Rightarrow> 'v \<Rightarrow> ('k \<times> 'v) list \<Rightarrow> ('k \<times> 'v) list" where
  "dict_set k v [] = [(k, v)]"
| "dict_set k v ((k', v') # d) =
     (if k' = k then (k, v) # d else (k', v') # dict_set k v d)"

text \<open>
  What \<^verbatim>\<open>provider_results\<close> can hold: a mapping, or an object that is no mapping
  (\<^verbatim>\<open>None\<close>, or an exception instance that is no \<^verbatim>\<open>Exception\<close>), on which
  \<^verbatim>\<open>result["status"]\<close> raises \<^verbatim>\<open>TypeError\<close>.
\<close>

datatype pyobj = Mapping SupplierOutcome | NoneObj | ExcObj exn

text \<open>
  The units of a fan-out are the tasks \<^verbatim>\<open>asyncio.create_task\<close> made, numbered in the
  order of their creation from 0: the task \<open>i\<close> runs \<^verbatim>\<open>search_single\<close> for the \<open>i\<close>-th
  name of \<^verbatim>\<open>providers_to_search\<close>. The state of a task when the handler of the fan-out's
  timeout looks at it: done (\<^verbatim>\<open>task.result()\<close> then returns the unit's value, or raises
  what the unit raised, or raises \<^verbatim>\<open>CancelledError\<close> when the task was cancelled), or
  still running.
\<close>

datatype task = Done "exn + SupplierOutcome option" | Running

text \<open>
  What \<^verbatim>\<open>await asyncio.wait_for(asyncio.gather(*tasks, return_exceptions=True), timeout)\<close>
  does, which is up to the event loop and the suppliers: it returns every awaited task's
  value or exception instance, or it raises \<^verbatim>\<open>asyncio.TimeoutError\<close> and leaves each
  task, awaited or not, done or running.
\<close>

datatype fanout =
    Gathered "nat \<Rightarrow> exn + SupplierOutcome option"
  | DeadlineElapsed "nat \<Rightarrow> task"

record Summary =
  total_offers :: nat
  successful_providers :: nat
  error_providers :: "nat option"
  timeout_providers :: "nat option"
  total_processing_time_ms :: int
  hotel_count :: nat
  hotels_searched :: "string list option"
  search_timeout_used :: "real option"

record AggregatedResult =
  providers :: "(string \<times> SupplierOutcome) list"
  summary :: Summary

text \<open>The resolution of the supplier subset, from \<^verbatim>\<open>list(self.adapters.keys())\<close>.\<close>

definition providers_to_search :: "string list \<Rightarrow> criteria \<Rightarrow> string list" where
  "providers_to_search available_providers crit =
     (case crit_providers crit of
        None \<Rightarrow> available_providers
      | Some selected_providers \<Rightarrow>
          if selected_providers = [] then available_providers
          else
            (let valid_providers = filter (\<lambda>p. p \<in> set available_providers) selected_providers
             in if valid_providers = [] then available_providers else valid_providers))"

text \<open>
  The loop that creates the tasks, one for each name in turn, stores each under its name
  in \<^verbatim>\<open>provider_tasks\<close>, a \<^verbatim>\<open>dict\<close>: a name that comes again replaces the task stored
  under it, and the replaced task goes on running, referenced from nowhere.
\<close>

definition provider_tasks :: "string list \<Rightarrow> (string \<times> nat) list" where
  "provider_tasks names =
     foldl (\<lambda>d x. dict_set (fst x) (snd x) d) [] (zip names [0..<length names])"

definition error_entry :: "error_text \<Rightarrow> int option \<Rightarrow> SupplierOutcome" where
  "error_entry msg ms =
     \<lparr> status = ''error'', provider = None, error = Some msg, offers = [],
       offer_count = None, processing_time_ms = ms, attempts = None,
       circuit_breaker_state = None \<rparr>"

definition timeout_entry :: "error_text \<Rightarrow> int option \<Rightarrow> SupplierOutcome" where
  "timeout_entry msg ms =
     \<lparr> status = ''timeout'', provider = None, error = Some msg, offers = [],
       offer_count = None, processing_time_ms = ms, attempts = None,
       circuit_breaker_state = None \<rparr>"

definition not_subscriptable :: exn where
  "not_subscriptable = TypeError ''object is not subscriptable''"

text \<open>
  The loop over the gathered results: the \<open>i\<close>-th result goes under the \<open>i\<close>-th name of
  \<^verbatim>\<open>providers_to_search\<close>. It ends early, with the exception, when a result is no
  mapping.
\<close>

fun process_completed ::
  "int \<Rightarrow> (string \<times> (exn + SupplierOutcome option)) list \<Rightarrow> (string \<times> pyobj) list
     \<Rightarrow> pyval list \<Rightarrow> exn option \<times> (string \<times> pyobj) list \<times> pyval list" where
  "process_completed ms [] provider_results all_offers = (None, provider_results, all_offers)"
| "process_completed ms ((provider_name, result) # rest) provider_results all_offers =
     (case result of
        Inl e \<Rightarrow>
          if is_Exception e then
            process_completed ms rest
              (dict_set provider_name (Mapping (error_entry (StrOf e) (Some ms))) provider_results)
              all_offers
          else (Some not_subscriptable, dict_set provider_name (ExcObj e) provider_results,
                all_offers)
      | Inr None \<Rightarrow>
          (Some not_subscriptable, dict_set provider_name NoneObj provider_results, all_offers)
      | Inr (Some r) \<Rightarrow>
          process_completed ms rest (dict_set provider_name (Mapping r) provider_results)
            (if status r = ''success'' then all_offers @ offers r else all_offers))"

text \<open>The handler of any other exception: the suppliers without a result get an error entry.\<close>

fun fill_missing :: "exn \<Rightarrow> string list \<Rightarrow> (string \<times> pyobj) list \<Rightarrow> (string \<times> pyobj) list" where
  "fill_missing e [] provider_results = provider_results"
| "fill_missing e (provider_name # rest) provider_results =
     fill_missing e rest
       (if provider_name \<in> fst ` set provider_results then provider_results
        else dict_set provider_name (Mapping (error_entry (UnexpectedError e) None))
               provider_results)"

text \<open>
  The handler of the fan-out's timeout: the loop over \<^verbatim>\<open>provider_tasks.items()\<close>, over
  the tasks in the state \<open>tasks\<close>. A task that is not done is cancelled and recorded as a
  timeout; nothing it raises later is looked at. \<^verbatim>\<open>task.cancelled()\<close> is false of a
  task that is not done, so \<^verbatim>\<open>task.cancel()\<close> is called on each of them; \<open>cancelled\<close>
  lists the tasks it was called on. No other task is touched.
\<close>

fun collect_partial ::
  "real \<Rightarrow> (nat \<Rightarrow> task) \<Rightarrow> (string \<times> nat) list \<Rightarrow> (string \<times> pyobj) list \<Rightarrow> pyval list
     \<Rightarrow> nat list \<Rightarrow> (string \<times> pyobj) list \<times> pyval list \<times> nat list" where
  "collect_partial search_timeout tasks [] provider_results all_offers cancelled =
     (provider_results, all_offers, cancelled)"
| "collect_partial search_timeout tasks ((provider_name, t) # rest) provider_results all_offers
     cancelled =
     (case tasks t of
        Done (Inr (Some r)) \<Rightarrow>
          collect_partial search_timeout tasks rest
            (dict_set provider_name (Mapping r) provider_results)
            (if status r = ''success'' then all_offers @ offers r else all_offers)
            cancelled
      | Done (Inr None) \<Rightarrow>
          collect_partial search_timeout tasks rest
            (dict_set provider_name (Mapping (error_entry (StrOf not_subscriptable) None))
               (dict_set provider_name NoneObj provider_results))
            all_offers cancelled
      | Done (Inl e) \<Rightarrow>
          if e = CancelledError then
            collect_partial search_timeout tasks rest
              (dict_set provider_name (Mapping (timeout_entry CancelledDuringTimeout None))
                 provider_results)
              all_offers cancelled
          else
            collect_partial search_timeout tasks rest
              (dict_set provider_name (Mapping (error_entry (StrOf e) None)) provider_results)
              all_offers cancelled
      | Running \<Rightarrow>
          collect_partial search_timeout tasks rest
            (dict_set provider_name
               (Mapping (timeout_entry (TimedOutAfter search_timeout)
                           (Some (py_int (search_timeout * 1000)))))
               provider_results)
            all_offers (cancelled @ [t]))"

text \<open>The summary reads \<^verbatim>\<open>result["status"]\<close> of every entry, so every entry must be a mapping.\<close>

fun mappings :: "(string \<times> pyobj) list \<Rightarrow> (string \<times> SupplierOutcome) list option" where
  "mappings [] = Some []"
| "mappings ((k, Mapping r) # d) = map_option (\<lambda>rest. (k, r) # rest) (mappings d)"
| "mappings ((k, _) # d) = None"

definition count_status :: "string \<Rightarrow> (string \<times> SupplierOutcome) list \<Rightarrow> nat" where
  "count_status s results = length (filter (\<lambda>(k, r). status r = s) results)"

text \<open>
  The \<^verbatim>\<open>try\<close> statement around the fan-out, after the await over the values of
  \<^verbatim>\<open>provider_tasks\<close>: the results gathered in time are processed in order (and the
  handler of any other exception fills in the rest when that loop raises), or the
  handler of the timeout collects the partial results. The last component lists the
  tasks the handlers cancelled.
\<close>

definition reduce_fanout ::
  "int \<Rightarrow> real \<Rightarrow> string list \<Rightarrow> (string \<times> nat) list \<Rightarrow> fanout
     \<Rightarrow> (string \<times> pyobj) list \<times> pyval list \<times> nat list" where
  "reduce_fanout ms search_timeout names tasks outcome =
     (case outcome of
        Gathered completed \<Rightarrow>
          (case process_completed ms (zip names (map completed (map snd tasks))) [] [] of
             (None, res, offs) \<Rightarrow> (res, offs, [])
           | (Some e, res, offs) \<Rightarrow> (fill_missing e names res, offs, []))
      | DeadlineElapsed snapshot \<Rightarrow> collect_partial search_timeout snapshot tasks [] [] [])"

text \<open>
  The summary and the returned mapping. Counting the statuses raises \<^verbatim>\<open>TypeError\<close>
  when an entry of \<^verbatim>\<open>provider_results\<close> is no mapping.
\<close>

definition summarize ::
  "int \<Rightarrow> string list \<Rightarrow> real \<Rightarrow> (string \<times> pyobj) list \<Rightarrow> pyval list
     \<Rightarrow> exn + AggregatedResult" where
  "summarize ms hotel_names search_timeout provider_results all_offers =
     (case mappings provider_results of
        None \<Rightarrow> Inl not_subscriptable
      | Some results \<Rightarrow>
          Inr \<lparr> providers = results,
                summary =
                  \<lparr> total_offers = length all_offers,
                    successful_providers = count_status ''success'' results,
                    error_providers = Some (count_status ''error'' results),
                    timeout_providers = Some (count_status ''timeout'' results),
                    total_processing_time_ms = ms,
                    hotel_count = length hotel_names,
                    hotels_searched = Some hotel_names,
                    search_timeout_used = Some search_timeout \<rparr> \<rparr>)"

text \<open>
  \<^verbatim>\<open>search_all\<close>. \<open>wait_for_gather\<close> is the awaited fan-out, given the tasks awaited and
  the timeout. The result is what the coroutine returns or raises, the world, the
  suppliers of the tasks created, in order of creation, and the tasks cancelled.
\<close>

definition search_all ::
  "'w runtime \<Rightarrow> (nat list \<Rightarrow> real \<Rightarrow> 'w \<Rightarrow> fanout \<times> 'w) \<Rightarrow> 'w UniversalProvider
     \<Rightarrow> criteria \<Rightarrow> 'w \<Rightarrow> (exn + AggregatedResult) \<times> 'w \<times> string list \<times> nat list" where
  "search_all rt wait_for_gather self crit w =
     (let start_time = time_time rt w;
          hotel_names = (case crit_hotel_names crit of None \<Rightarrow> [] | Some hs \<Rightarrow> hs)
      in if hotel_names = [] then
           (Inr \<lparr> providers = [],
                  summary = \<lparr> total_offers = 0, successful_providers = 0,
                              error_providers = None, timeout_providers = None,
                              total_processing_time_ms = elapsed_ms rt start_time w,
                              hotel_count = 0, hotels_searched = None,
                              search_timeout_used = None \<rparr> \<rparr>,
            w, [], [])
         else
           (let names = providers_to_search (map fst (adapters self)) crit;
                tasks = provider_tasks names;
                search_timeout = (case crit_search_timeout crit of None \<Rightarrow> 10 | Some t \<Rightarrow> t)
            in case wait_for_gather (map snd tasks) search_timeout w of
                 (outcome, w') \<Rightarrow>
                   (case reduce_fanout (elapsed_ms rt start_time w') search_timeout names tasks
                           outcome of
                      (provider_results, all_offers, cancelled) \<Rightarrow>
                        (summarize (elapsed_ms rt start_time w') hotel_names search_timeout
                           provider_results all_offers,
                         w', names, cancelled))))"

text \<open>
  A task the handler of the timeout finds unfinished: still running, or cancelled
  (\<^verbatim>\<open>task.result()\<close> raises \<^verbatim>\<open>CancelledError\<close>), which is how the expiring \<^verbatim>\<open>wait_for\<close>
  leaves the tasks it awaited that had not finished.
\<close>

fun in_flight :: "task \<Rightarrow> bool" where
  "in_flight Running = True"
| "in_flight (Done (Inl e)) = (e = CancelledError)"
| "in_flight (Done (Inr _)) = False"

text \<open>The entry the timeout handler records for a task, by the task's state.\<close>

fun partial_entry :: "real \<Rightarrow> task \<Rightarrow> SupplierOutcome" where
  "partial_entry search_timeout (Done (Inr (Some r))) = r"
| "partial_entry search_timeout (Done (Inr None)) = error_entry (StrOf not_subscriptable) None"
| "partial_entry search_timeout (Done (Inl e)) =
     (if e = CancelledError then timeout_entry CancelledDuringTimeout None
      else error_entry (StrOf e) None)"
| "partial_entry search_timeout Running =
     timeout_entry (TimedOutAfter search_timeout) (Some (py_int (search_timeout * 1000)))"

text \<open>
  The entry the loop over the gathered results records for a result that is a mapping
  or an \<^verbatim>\<open>Exception\<close>; the other results make the loop raise.
\<close>

fun is_mapping_or_Exception :: "exn + SupplierOutcome option \<Rightarrow> bool" where
  "is_mapping_or_Exception (Inr (Some r)) = True"
| "is_mapping_or_Exception (Inr None) = False"
| "is_mapping_or_Exception (Inl e) = is_Exception e"

fun gathered_entry :: "int \<Rightarrow> exn + SupplierOutcome option \<Rightarrow> SupplierOutcome" where
  "gathered_entry ms (Inr (Some r)) = r"
| "gathered_entry ms (Inl e) = error_entry (StrOf e) (Some ms)"
| "gathered_entry ms (Inr None) = error_entry (StrOf not_subscriptable) (Some ms)"

text \<open>
  No unit of the fan-out hands back a mapping with the status \<open>timeout\<close>: what holds of
  a fan-out whose units are runs of \<^verbatim>\<open>search_single\<close>.
\<close>

definition units_never_report_timeout :: "fanout \<Rightarrow> bool" where
  "units_never_report_timeout outcome =
     (case outcome of
        Gathered completed \<Rightarrow> (\<forall>t r. completed t = Inr (Some r) \<longrightarrow> status r \<noteq> ''timeout'')
      | DeadlineElapsed snapshot \<Rightarrow>
          (\<forall>t r. snapshot t = Done (Inr (Some r)) \<longrightarrow> status r \<noteq> ''timeout''))"

text \<open>No mapping in \<^verbatim>\<open>provider_results\<close> has the status \<open>timeout\<close>.\<close>

definition no_timeout_entries :: "(string \<times> pyobj) list \<Rightarrow> bool" where
  "no_timeout_entries d = (\<forall>k r. (k, Mapping r) \<in> set d \<longrightarrow> status r \<noteq> ''timeout'')"

subsection \<open>Example suppliers\<close>

text \<open>
  A world that is just the clock; a supplier that takes 25 s and times out on every
  call, and one that answers within a second with one offer. On the strings of the
  examples \<^verbatim>\<open>str.lower()\<close> maps the letters A to Z.
\<close>

definition ascii_lower :: "string \<Rightarrow> string" where
  "ascii_lower s = map (\<lambda>c. let n = (of_char c :: nat)
                             in if 65 \<le> n \<and> n \<le> 90 then char_of (n + 32) else c) s"

definition rt_example :: "real runtime" where
  "rt_example = \<lparr> time_time = (\<lambda>w. w), asyncio_sleep = (\<lambda>d w. w + d),
                   str_lower = ascii_lower \<rparr>"

definition svc_plain :: meal_type_service where
  "svc_plain = \<lparr> should_filter_at_response_level = (\<lambda>p m. Inr False),
                  filter_offers_by_any_meal_type = (\<lambda>p os ms. Inr os),
                  normalize_offers_meal_plans = (\<lambda>os p. Inr os) \<rparr>"

definition adapter_timing_out :: "real ProviderAdapter" where
  "adapter_timing_out = \<lparr> prepare_meal_type_criteria = Inr,
                           search = (\<lambda>c w. (Inl TimeoutError, w + 25)),
                           normalize = (\<lambda>raw c. Inr []) \<rparr>"

definition adapter_answering :: "real ProviderAdapter" where
  "adapter_answering = \<lparr> prepare_meal_type_criteria = Inr,
                          search = (\<lambda>c w. (Inr (PyDict []), w + 1)),
                          normalize = (\<lambda>raw c. Inr [PyDict [(''room_name'', PyStr ''Double'')]]) \<rparr>"

definition up_example :: "real UniversalProvider" where
  "up_example = \<lparr> adapters = [(''rate_hawk'', adapter_timing_out), (''tbo'', adapter_answering)],
                   circuit_breakers = (\<lambda>p. if p = ''rate_hawk'' then Some cb_fresh
                                             else if p = ''tbo'' then Some cb_two_failures
                                             else if p = ''goglobal'' then Some cb_opened
                                             else None) \<rparr>"

definition crit_example :: criteria where
  "crit_example = \<lparr> crit_hotel_names = Some [''Banyan Tree Krabi''], crit_providers = None,
                     crit_meal_types = None, crit_room_category = None,
                     crit_search_timeout = None \<rparr>"

text \<open>
  A third supplier, \<open>goglobal\<close>, that never answers and whose breaker is open, and a
  fourth, \<open>hotelbeds\<close>, whose unit is cancelled while it awaits its search.
\<close>

definition up_three :: "real UniversalProvider" where
  "up_three = up_example\<lparr>adapters := adapters up_example @ [(''goglobal'', adapter_timing_out)]\<rparr>"

definition adapter_cancelled :: "real ProviderAdapter" where
  "adapter_cancelled = \<lparr> prepare_meal_type_criteria = Inr,
                          search = (\<lambda>c w. (Inl CancelledError, w + 10)),
                          normalize = (\<lambda>raw c. Inr []) \<rparr>"

definition up_cancelled :: "real UniversalProvider" where
  "up_cancelled = \<lparr> adapters = [(''tbo'', adapter_answering), (''hotelbeds'', adapter_cancelled)],
                     circuit_breakers = (\<lambda>p. if p = ''hotelbeds'' \<or> p = ''tbo'' then Some cb_fresh
                                               else None) \<rparr>"

text \<open>
  The same timing-out supplier in a world that keeps, beside the clock, the record of
  the effects on it.
\<close>

definition rt_journal :: "(real \<times> effect list) runtime" where
  "rt_journal = \<lparr> time_time = fst,
                   asyncio_sleep = (\<lambda>d w. (fst w + d, snd w @ [Waited d])),
                   str_lower = ascii_lower \<rparr>"

definition adapter_journal :: "(real \<times> effect list) ProviderAdapter" where
  "adapter_journal = \<lparr> prepare_meal_type_criteria = Inr,
                        search = (\<lambda>c w. (Inl TimeoutError, (fst w + 25, snd w @ [Searched]))),
                        normalize = (\<lambda>raw c. Inr []) \<rparr>"

definition up_journal :: "(real \<times> effect list) UniversalProvider" where
  "up_journal = \<lparr> adapters = [(''rate_hawk'', adapter_journal), (''goglobal'', adapter_journal)],
                   circuit_breakers = (\<lambda>p. if p = ''rate_hawk'' then Some cb_fresh
                                             else if p = ''goglobal'' then Some cb_opened
                                             else None) \<rparr>"

text \<open>
  Fan-outs over the example suppliers; \<open>created\<close> are the suppliers of the tasks, in
  order of creation. In the first, everything is gathered after 3 s. In the second the
  deadline elapses: the units of \<open>tbo\<close> had finished with an offer, those of \<open>rate_hawk\<close>
  were cancelled by the expiring wait, those of \<open>goglobal\<close> are still running. In the
  third the deadline elapses with the units of \<open>tbo\<close> finished and all others running.
\<close>

definition outcome_tbo :: SupplierOutcome where
  "outcome_tbo = \<lparr> status = ''success'', provider = Some ''tbo'', error = None,
       offers = [PyDict [(''room_name'', PyStr ''Double'')]], offer_count = Some 1,
       processing_time_ms = Some 1000, attempts = Some 1,
       circuit_breaker_state = Some ''closed'' \<rparr>"

definition outcome_rate_hawk :: SupplierOutcome where
  "outcome_rate_hawk = \<lparr> status = ''error'', provider = Some ''rate_hawk'',
       error = Some (ServiceError ''rate_hawk'' 3), offers = [], offer_count = None,
       processing_time_ms = Some 3000, attempts = None,
       circuit_breaker_state = Some ''open'' \<rparr>"

definition unit_outcome :: "string \<Rightarrow> exn + SupplierOutcome option" where
  "unit_outcome p =
     (if p = ''tbo'' then Inr (Some outcome_tbo)
      else if p = ''rate_hawk'' then Inr (Some outcome_rate_hawk)
      else Inl (OtherException ''connection reset''))"

definition wait_gathered :: "string list \<Rightarrow> nat list \<Rightarrow> real \<Rightarrow> real \<Rightarrow> fanout \<times> real" where
  "wait_gathered created awaited t w = (Gathered (\<lambda>i. unit_outcome (created ! i)), w + 3)"

definition unit_state :: "string \<Rightarrow> task" where
  "unit_state p =
     (if p = ''tbo'' then Done (Inr (Some outcome_tbo))
      else if p = ''rate_hawk'' then Done (Inl CancelledError)
      else Running)"

definition wait_deadline :: "string list \<Rightarrow> nat list \<Rightarrow> real \<Rightarrow> real \<Rightarrow> fanout \<times> real" where
  "wait_deadline created awaited t w = (DeadlineElapsed (\<lambda>i. unit_state (created ! i)), w + t)"

definition unit_running :: "string \<Rightarrow> task" where
  "unit_running p = (if p = ''tbo'' then Done (Inr (Some outcome_tbo)) else Running)"

definition wait_running :: "string list \<Rightarrow> nat list \<Rightarrow> real \<Rightarrow> real \<Rightarrow> fanout \<times> real" where
  "wait_running created awaited t w = (DeadlineElapsed (\<lambda>i. unit_running (created ! i)), w + t)"

text \<open>
  A request that names \<open>rate_hawk\<close> twice and then \<open>tbo\<close>, which the request model
  accepts. Three tasks are created, and the second replaces the first in
  \<^verbatim>\<open>provider_tasks\<close>. At the deadline the unit of \<open>tbo\<close> has finished, the expiring wait
  has cancelled the second unit of \<open>rate_hawk\<close>, which it awaited, and the first, which
  nothing awaits, is still running.
\<close>

definition crit_repeated :: criteria where
  "crit_repeated = crit_example\<lparr>crit_providers := Some [''rate_hawk'', ''rate_hawk'', ''tbo'']\<rparr>"

definition snapshot_replaced :: "nat \<Rightarrow> task" where
  "snapshot_replaced i =
     (if i = 0 then Running
      else if i = 1 then Done (Inl CancelledError)
      else Done (Inr (Some outcome_tbo)))"

definition wait_replaced :: "nat list \<Rightarrow> real \<Rightarrow> real \<Rightarrow> fanout \<times> real" where
  "wait_replaced awaited t w = (DeadlineElapsed snapshot_replaced, w + t)"

subsection \<open>Properties of \<^verbatim>\<open>search_single\<close>\<close>

lemma run_timing_out:
  "search_single rt_example Config svc_plain up_example ''rate_hawk'' crit_example 1000
   = (Inr (Some \<lparr> status = ''error'', provider = Some ''rate_hawk'',
                   error = Some (ResponseTimeout ''rate_hawk'' 3), offers = [],
                   offer_count = None, processing_time_ms = Some 78000, attempts = None,
                   circuit_breaker_state = Some ''open'' \<rparr>),
      up_example\<lparr>circuit_breakers := (circuit_breakers up_example)
         (''rate_hawk'' := Some (cb_fresh\<lparr>failure_count := 3, last_failure_time := Some 1078,
                                         state_attr := OPEN\<rparr>))\<rparr>,
      1078,
      [Attempted (Some TimeoutError), Slept 1, Attempted (Some TimeoutError), Slept 2,
       Attempted (Some TimeoutError)])"
  by (simp add: search_single_def up_example_def rt_example_def Config_def svc_plain_def
        adapter_timing_out_def crit_example_def cb_fresh_def state_def update_state_def
        numeral_3_eq_3 attempt_body_def call_def on_failure_def elapsed_ms_def py_int_def
        breaker_state_value_def Let_def)

lemma retry_loop_trace:
  "retry_loop rt cfg svc adapter p crit st n attempt cbo w = (r, cbo', w', tr)
   \<Longrightarrow> n = 0 \<or> int (n + attempt) = MAX_RETRIES cfg
   \<Longrightarrow> retries_follow_transient tr
     \<and> sleeps tr = map (\<lambda>k. RETRY_BASE_DELAY cfg * 2 ^ k) [attempt..<attempt + length (sleeps tr)]
     \<and> attempts_made tr = (if n = 0 then 0 else Suc (length (sleeps tr)))
     \<and> length (sleeps tr) < n + (if n = 0 then 1 else 0)"
proof (induction n arbitrary: attempt cbo w r cbo' w' tr)
  case 0
  then show ?case by simp
next
  case (Suc n)
  obtain out cbo1 w1 where body: "attempt_body rt svc adapter p crit cbo w = (out, cbo1, w1)"
    by (cases "attempt_body rt svc adapter p crit cbo w")
  show ?case
  proof (cases out)
    case (Inr offs)
    with Suc.prems body show ?thesis
      by (auto split: prod.splits)
  next
    case (Inl e)
    let ?retry = "\<not> is_CircuitBreakerOpenError e \<and> is_Exception e
                  \<and> int attempt < MAX_RETRIES cfg - 1"
    show ?thesis
    proof (cases ?retry)
      case False
      with Suc.prems body Inl have "tr = [Attempted (Some e)]"
        by (auto split: prod.splits if_splits)
      then show ?thesis by simp
    next
      case True
      define delay where "delay = RETRY_BASE_DELAY cfg * 2 ^ attempt"
      obtain r2 cbo3 w3 tr' where rec:
        "retry_loop rt cfg svc adapter p crit st n (attempt + 1) cbo1 (asyncio_sleep rt delay w1)
           = (r2, cbo3, w3, tr')"
        by (metis prod_cases4)
      from True Suc.prems(1) body Inl rec
      have tr: "tr = Attempted (Some e) # Slept delay # tr'"
        by (auto simp: Let_def delay_def split: prod.splits if_splits)
      from True Suc.prems(2) have n: "n \<noteq> 0" "int (n + (attempt + 1)) = MAX_RETRIES cfg"
        by auto
      from Suc.IH [OF rec] n
      have ih: "retries_follow_transient tr'"
        "sleeps tr' = map (\<lambda>k. RETRY_BASE_DELAY cfg * 2 ^ k)
                        [attempt + 1..<attempt + 1 + length (sleeps tr')]"
        "attempts_made tr' = Suc (length (sleeps tr'))"
        "length (sleeps tr') < n"
        by auto
      have "[attempt..<attempt + length (sleeps tr)]
              = attempt # [attempt + 1..<attempt + 1 + length (sleeps tr')]"
        using upt_conv_Cons [of attempt "attempt + Suc (length (sleeps tr'))"]
        by (simp add: tr)
      with ih True show ?thesis
        by (simp add: tr delay_def)
    qed
  qed
qed

lemma doubling_increases:
  "0 < (b::real) \<Longrightarrow> sorted_wrt (<) (map (\<lambda>k. b * 2 ^ k) [i..<j])"
  by (simp add: sorted_wrt_map sorted_wrt_iff_nth_less power_strict_increasing)

text \<open>What \<^verbatim>\<open>search_single\<close> does on each of its three paths.\<close>

lemma search_single_unknown:
  "map_of (adapters self) p = None
   \<Longrightarrow> search_single rt cfg svc self p crit w
       = (Inr (Some \<lparr> status = ''error'', provider = None, error = Some (NotAvailable p),
                       offers = [], offer_count = None, processing_time_ms = None,
                       attempts = None, circuit_breaker_state = None \<rparr>),
          self, w, [])"
  by (simp add: search_single_def)

lemma search_single_open:
  assumes "map_of (adapters self) p = Some adapter"
    and "circuit_breakers self p = Some cb"
    and "fst (state (time_time rt w) cb) = OPEN"
  shows "\<exists>r self'. search_single rt cfg svc self p crit w = (Inr (Some r), self', w, [])
            \<and> status r = ''error'' \<and> error r = Some (ProtectionActive p) \<and> offers r = []"
  using assms
  by (cases "state (time_time rt w) cb")
     (auto simp: search_single_def Let_def split: prod.splits)

lemma search_single_loop:
  assumes "map_of (adapters self) p = Some adapter"
    and "\<forall>cb. circuit_breakers self p = Some cb \<longrightarrow> fst (state (time_time rt w) cb) \<noteq> OPEN"
  shows "search_single rt cfg svc self p crit w
           = (case retry_loop rt cfg svc adapter p crit (time_time rt w)
                     (nat (MAX_RETRIES cfg)) 0
                     (map_option (\<lambda>cb. snd (state (time_time rt w) cb)) (circuit_breakers self p))
                     w of
                (r, cbo', w', tr) \<Rightarrow>
                  (r, self\<lparr>circuit_breakers := (circuit_breakers self)(p := cbo')\<rparr>, w', tr))"
proof (cases "circuit_breakers self p")
  case None
  with assms(1) show ?thesis
    by (simp add: search_single_def Let_def split: prod.splits)
next
  case (Some cb)
  obtain st cb1 where s: "state (time_time rt w) cb = (st, cb1)"
    by (cases "state (time_time rt w) cb")
  with assms(2) Some have "st \<noteq> OPEN" by auto
  with assms(1) Some s show ?thesis
    by (cases st) (simp_all add: search_single_def Let_def split: prod.splits)
qed

lemma search_single_trace:
  assumes run: "search_single rt cfg svc self p crit w = (r, self', w', tr)"
  shows "retries_follow_transient tr
       \<and> sleeps tr = map (\<lambda>k. RETRY_BASE_DELAY cfg * 2 ^ k) [0..<length (sleeps tr)]
       \<and> int (length (sleeps tr)) \<le> max 0 (MAX_RETRIES cfg - 1)
       \<and> int (attempts_made tr) \<le> max 0 (MAX_RETRIES cfg)"
proof (cases "map_of (adapters self) p")
  case None
  from run search_single_unknown [OF None, of rt cfg svc crit w] have "tr = []" by simp
  then show ?thesis by simp
next
  case (Some adapter)
  show ?thesis
  proof (cases "\<exists>cb. circuit_breakers self p = Some cb \<and> fst (state (time_time rt w) cb) = OPEN")
    case True
    then obtain cb where "circuit_breakers self p = Some cb"
        "fst (state (time_time rt w) cb) = OPEN"
      by blast
    from search_single_open [OF Some this, of cfg svc crit] run have "tr = []" by auto
    then show ?thesis by simp
  next
    case False
    then have nopen: "\<forall>cb. circuit_breakers self p = Some cb
        \<longrightarrow> fst (state (time_time rt w) cb) \<noteq> OPEN"
      by blast
    define cbo where
      "cbo = map_option (\<lambda>cb. snd (state (time_time rt w) cb)) (circuit_breakers self p)"
    obtain r2 cbo2 w2 tr2 where loop:
      "retry_loop rt cfg svc adapter p crit (time_time rt w) (nat (MAX_RETRIES cfg)) 0 cbo w
         = (r2, cbo2, w2, tr2)"
      by (metis prod_cases4)
    from search_single_loop [OF Some nopen, of cfg svc crit] run loop have "tr = tr2"
      by (simp add: cbo_def)
    moreover have "nat (MAX_RETRIES cfg) = 0 \<or> int (nat (MAX_RETRIES cfg) + 0) = MAX_RETRIES cfg"
      by auto
    from retry_loop_trace [OF loop this]
    have "retries_follow_transient tr2"
      "sleeps tr2 = map (\<lambda>k. RETRY_BASE_DELAY cfg * 2 ^ k) [0..<length (sleeps tr2)]"
      "int (length (sleeps tr2)) \<le> max 0 (MAX_RETRIES cfg - 1)"
      "int (attempts_made tr2) \<le> max 0 (MAX_RETRIES cfg)"
      by (auto split: if_splits)
    ultimately show ?thesis by simp
  qed
qed
text \<open>
  The effects of a unit on a world that keeps a record of them, \<open>journal\<close>: every sleep
  adds its delay, every search of the adapter adds a mark.
\<close>

lemma attempt_body_journal:
  assumes search_logged: "\<forall>c u. journal (snd (search adapter c u)) = journal u @ [Searched]"
    and body: "attempt_body rt svc adapter p crit cbo w = (out, cbo1, w1)"
  shows "journal w1 = journal w \<or> journal w1 = journal w @ [Searched]"
proof (cases "prepare_meal_type_criteria adapter crit")
  case (Inl e)
  with body show ?thesis by (simp add: attempt_body_def)
next
  case (Inr provider_criteria)
  obtain r u where s: "search adapter provider_criteria w = (r, u)"
    by (cases "search adapter provider_criteria w")
  from search_logged s have j: "journal u = journal w @ [Searched]"
    by (metis snd_conv)
  show ?thesis
  proof (cases cbo)
    case None
    with body Inr s have "w1 = u"
      by (auto simp: attempt_body_def split: sum.splits)
    with j show ?thesis by simp
  next
    case (Some cb)
    with body Inr s have "w1 = w \<or> w1 = u"
      by (auto simp: attempt_body_def call_def Let_def split: sum.splits if_splits)
    with j show ?thesis by auto
  qed
qed

lemma rounds_step:
  "es0 = [] \<or> es0 = [Searched]
     \<Longrightarrow> rounds b k (es0 @ Waited d # es) = (d = b * 2 ^ k \<and> rounds b (k + 1) es)"
  by auto

lemma rounds_last: "es0 = [] \<or> es0 = [Searched] \<Longrightarrow> rounds b k es0"
  by auto

lemma retry_loop_journal:
  assumes sleep_logged: "\<forall>d u. journal (asyncio_sleep rt d u) = journal u @ [Waited d]"
    and search_logged: "\<forall>c u. journal (snd (search adapter c u)) = journal u @ [Searched]"
  shows "retry_loop rt cfg svc adapter p crit st n attempt cbo w = (r, cbo', w', tr)
     \<Longrightarrow> \<exists>es. journal w' = journal w @ es \<and> rounds (RETRY_BASE_DELAY cfg) attempt es
            \<and> waits es = sleeps tr \<and> searches es \<le> attempts_made tr"
proof (induction n arbitrary: attempt cbo w r cbo' w' tr)
  case 0
  then show ?case by simp
next
  case (Suc n)
  obtain out cbo1 w1 where body: "attempt_body rt svc adapter p crit cbo w = (out, cbo1, w1)"
    by (cases "attempt_body rt svc adapter p crit cbo w")
  from attempt_body_journal [OF search_logged body]
  obtain es0 where es0: "es0 = [] \<or> es0 = [Searched]" "journal w1 = journal w @ es0"
    by auto
  have one: "\<exists>es. journal w1 = journal w @ es \<and> rounds (RETRY_BASE_DELAY cfg) attempt es
            \<and> waits es = [] \<and> searches es \<le> Suc 0"
    using es0 by auto
  show ?case
  proof (cases out)
    case (Inr offs)
    with Suc.prems body have "w' = w1" "tr = [Attempted None]"
      by (auto split: prod.splits)
    with one show ?thesis by simp
  next
    case (Inl e)
    let ?retry = "\<not> is_CircuitBreakerOpenError e \<and> is_Exception e
                  \<and> int attempt < MAX_RETRIES cfg - 1"
    show ?thesis
    proof (cases ?retry)
      case False
      with Suc.prems body Inl have "w' = w1" "tr = [Attempted (Some e)]"
        by (auto split: prod.splits if_splits)
      with one show ?thesis by simp
    next
      case True
      define delay where "delay = RETRY_BASE_DELAY cfg * 2 ^ attempt"
      obtain r2 cbo3 w3 tr' where rec:
        "retry_loop rt cfg svc adapter p crit st n (attempt + 1) cbo1 (asyncio_sleep rt delay w1)
           = (r2, cbo3, w3, tr')"
        by (metis prod_cases4)
      from True Suc.prems(1) body Inl rec
      have tr: "tr = Attempted (Some e) # Slept delay # tr'" and w': "w' = w3"
        by (auto simp: Let_def delay_def split: prod.splits if_splits)
      from Suc.IH [OF rec] obtain es where es:
        "journal w3 = journal (asyncio_sleep rt delay w1) @ es"
        "rounds (RETRY_BASE_DELAY cfg) (attempt + 1) es"
        "waits es = sleeps tr'" "searches es \<le> attempts_made tr'"
        by blast
      from sleep_logged es0(2)
      have slept: "journal (asyncio_sleep rt delay w1) = journal w @ es0 @ [Waited delay]"
        by simp
      have "journal w' = journal w @ (es0 @ Waited delay # es)"
        by (simp add: w' es(1) slept)
      moreover have "rounds (RETRY_BASE_DELAY cfg) attempt (es0 @ Waited delay # es)"
        using rounds_step [OF es0(1)] es(2) by (simp add: delay_def)
      moreover have "waits (es0 @ Waited delay # es) = sleeps tr"
        using es0(1) es(3) by (auto simp: tr)
      moreover have "searches (es0 @ Waited delay # es) \<le> attempts_made tr"
        using es0(1) es(4) by (auto simp: tr)
      ultimately show ?thesis by blast
    qed
  qed
qed

lemma search_single_journal:
  assumes run: "search_single rt cfg svc self p crit w = (r, self', w', tr)"
    and sleep_logged: "\<forall>d u. journal (asyncio_sleep rt d u) = journal u @ [Waited d]"
    and search_logged: "\<forall>a c u. map_of (adapters self) p = Some a
                          \<longrightarrow> journal (snd (search a c u)) = journal u @ [Searched]"
  shows "\<exists>es. journal w' = journal w @ es \<and> rounds (RETRY_BASE_DELAY cfg) 0 es
            \<and> waits es = sleeps tr \<and> searches es \<le> attempts_made tr"
proof (cases "map_of (adapters self) p")
  case None
  from run search_single_unknown [OF None, of rt cfg svc crit w] have "tr = []" "w' = w"
    by simp_all
  then show ?thesis by simp
next
  case (Some adapter)
  show ?thesis
  proof (cases "\<exists>cb. circuit_breakers self p = Some cb \<and> fst (state (time_time rt w) cb) = OPEN")
    case True
    then obtain cb where "circuit_breakers self p = Some cb"
        "fst (state (time_time rt w) cb) = OPEN"
      by blast
    from search_single_open [OF Some this, of cfg svc crit] run have "tr = []" "w' = w"
      by auto
    then show ?thesis by simp
  next
    case False
    then have nopen: "\<forall>cb. circuit_breakers self p = Some cb
        \<longrightarrow> fst (state (time_time rt w) cb) \<noteq> OPEN"
      by blast
    define cbo where
      "cbo = map_option (\<lambda>cb. snd (state (time_time rt w) cb)) (circuit_breakers self p)"
    obtain r2 cbo2 w2 tr2 where loop:
      "retry_loop rt cfg svc adapter p crit (time_time rt w) (nat (MAX_RETRIES cfg)) 0 cbo w
         = (r2, cbo2, w2, tr2)"
      by (metis prod_cases4)
    from search_single_loop [OF Some nopen, of cfg svc crit] run loop
    have same: "tr = tr2" "w' = w2"
      by (simp_all add: cbo_def)
    from search_logged Some
    have logged: "\<forall>c u. journal (snd (search adapter c u)) = journal u @ [Searched]"
      by simp
    from retry_loop_journal [OF sleep_logged logged loop] same show ?thesis by simp
  qed
qed

lemma run_journal:
  "search_single rt_journal Config svc_plain up_journal ''rate_hawk'' crit_example (1000, [])
   = (Inr (Some \<lparr> status = ''error'', provider = Some ''rate_hawk'',
                   error = Some (ResponseTimeout ''rate_hawk'' 3), offers = [],
                   offer_count = None, processing_time_ms = Some 78000, attempts = None,
                   circuit_breaker_state = Some ''open'' \<rparr>),
      up_journal\<lparr>circuit_breakers := (circuit_breakers up_journal)
         (''rate_hawk'' := Some (cb_fresh\<lparr>failure_count := 3, last_failure_time := Some 1078,
                                         state_attr := OPEN\<rparr>))\<rparr>,
      (1078, [Searched, Waited 1, Searched, Waited 2, Searched]),
      [Attempted (Some TimeoutError), Slept 1, Attempted (Some TimeoutError), Slept 2,
       Attempted (Some TimeoutError)])"
  by (simp add: search_single_def up_journal_def rt_journal_def Config_def svc_plain_def
        adapter_journal_def crit_example_def cb_fresh_def state_def update_state_def
        numeral_3_eq_3 attempt_body_def call_def on_failure_def elapsed_ms_def py_int_def
        breaker_state_value_def Let_def)

lemma run_journal_open:
  "search_single rt_journal Config svc_plain up_journal ''goglobal'' crit_example (1010, [])
   = (Inr (Some \<lparr> status = ''error'', provider = Some ''goglobal'',
                   error = Some (ProtectionActive ''goglobal''), offers = [],
                   offer_count = None, processing_time_ms = Some 0, attempts = None,
                   circuit_breaker_state = Some ''open'' \<rparr>),
      up_journal\<lparr>circuit_breakers := (circuit_breakers up_journal)
         (''goglobal'' := Some cb_opened)\<rparr>,
      (1010, []), [])"
  by (simp add: search_single_def up_journal_def rt_journal_def Config_def
        adapter_journal_def crit_example_def cb_opened_def cb_fresh_def state_def
        update_state_def elapsed_ms_def py_int_def Let_def)

text \<open>
  Claim C5. In every run of \<^verbatim>\<open>search_single\<close>: a retry (a sleep and the attempt after
  it) only follows an attempt that raised a timeout or another \<^verbatim>\<open>Exception\<close>, never the
  breaker's rejection, after which nothing more happens; the number of retries is at
  most \<open>MAX_RETRIES - 1\<close> and the number of attempts at most \<open>MAX_RETRIES\<close>; the delay
  before the \<open>k\<close>-th retry (\<open>k = 1, 2, ...\<close>) is \<open>RETRY_BASE_DELAY * 2 ^ (k - 1)\<close>; with a
  positive base delay, as configured, the delays increase strictly; and a breaker found
  open on entry ends the run with an \<open>error\<close> mapping, no attempt, no sleep and the world
  untouched. These sleeps are what the unit does to the world: in every world that keeps
  a record of the calls of \<^verbatim>\<open>asyncio.sleep\<close>, with their delays, and of the searches of
  the supplier's adapter, the run adds to the record exactly the delays above, in order,
  one after each attempt that is retried, with at most one search before the first
  sleep, between two sleeps and after the last, and no more searches than attempts.
\<close>

theorem search_single_retries:
  assumes run: "search_single rt cfg svc self p crit w = (r, self', w', tr)"
  shows "retries_follow_transient tr
       \<and> sleeps tr = map (\<lambda>k. RETRY_BASE_DELAY cfg * 2 ^ k) [0..<length (sleeps tr)]
       \<and> int (length (sleeps tr)) \<le> max 0 (MAX_RETRIES cfg - 1)
       \<and> int (attempts_made tr) \<le> max 0 (MAX_RETRIES cfg)
       \<and> (0 < RETRY_BASE_DELAY cfg \<longrightarrow> sorted_wrt (<) (sleeps tr))
       \<and> ((\<exists>cb. circuit_breakers self p = Some cb \<and> fst (state (time_time rt w) cb) = OPEN)
            \<longrightarrow> tr = [] \<and> w' = w \<and> (\<exists>out. r = Inr (Some out) \<and> status out = ''error''))
       \<and> ((\<forall>d u. journal (asyncio_sleep rt d u) = journal u @ [Waited d])
            \<and> (\<forall>a c u. map_of (adapters self) p = Some a
                   \<longrightarrow> journal (snd (search a c u)) = journal u @ [Searched])
          \<longrightarrow> (\<exists>es. journal w' = journal w @ es
                \<and> waits es = sleeps tr
                \<and> waits es = map (\<lambda>k. RETRY_BASE_DELAY cfg * 2 ^ k) [0..<length (waits es)]
                \<and> rounds (RETRY_BASE_DELAY cfg) 0 es
                \<and> searches es \<le> attempts_made tr))"
proof -
  note t = search_single_trace [OF run]
  have inc: "0 < RETRY_BASE_DELAY cfg \<longrightarrow> sorted_wrt (<) (sleeps tr)"
  proof
    assume "0 < RETRY_BASE_DELAY cfg"
    from doubling_increases [OF this, of 0 "length (sleeps tr)"] t show "sorted_wrt (<) (sleeps tr)"
      by simp
  qed
  have rej: "(\<exists>cb. circuit_breakers self p = Some cb \<and> fst (state (time_time rt w) cb) = OPEN)
            \<longrightarrow> tr = [] \<and> w' = w \<and> (\<exists>out. r = Inr (Some out) \<and> status out = ''error'')"
  proof
    assume "\<exists>cb. circuit_breakers self p = Some cb \<and> fst (state (time_time rt w) cb) = OPEN"
    then obtain cb where cb: "circuit_breakers self p = Some cb"
        "fst (state (time_time rt w) cb) = OPEN"
      by blast
    show "tr = [] \<and> w' = w \<and> (\<exists>out. r = Inr (Some out) \<and> status out = ''error'')"
    proof (cases "map_of (adapters self) p")
      case None
      from run search_single_unknown [OF None, of rt cfg svc crit w] show ?thesis by auto
    next
      case (Some adapter)
      from search_single_open [OF Some cb, of cfg svc crit] run show ?thesis by auto
    qed
  qed
  have world: "(\<forall>d u. journal (asyncio_sleep rt d u) = journal u @ [Waited d])
            \<and> (\<forall>a c u. map_of (adapters self) p = Some a
                   \<longrightarrow> journal (snd (search a c u)) = journal u @ [Searched])
          \<longrightarrow> (\<exists>es. journal w' = journal w @ es
                \<and> waits es = sleeps tr
                \<and> waits es = map (\<lambda>k. RETRY_BASE_DELAY cfg * 2 ^ k) [0..<length (waits es)]
                \<and> rounds (RETRY_BASE_DELAY cfg) 0 es
                \<and> searches es \<le> attempts_made tr)"
  proof
    assume logged: "(\<forall>d u. journal (asyncio_sleep rt d u) = journal u @ [Waited d])
            \<and> (\<forall>a c u. map_of (adapters self) p = Some a
                   \<longrightarrow> journal (snd (search a c u)) = journal u @ [Searched])"
    then have sleep_logged: "\<forall>d u. journal (asyncio_sleep rt d u) = journal u @ [Waited d]"
      and search_logged: "\<forall>a c u. map_of (adapters self) p = Some a
                   \<longrightarrow> journal (snd (search a c u)) = journal u @ [Searched]"
      by blast+
    from search_single_journal [OF run sleep_logged search_logged]
    obtain es where es: "journal w' = journal w @ es" "rounds (RETRY_BASE_DELAY cfg) 0 es"
        "waits es = sleeps tr" "searches es \<le> attempts_made tr"
      by blast
    from es(3) t
    have "waits es = map (\<lambda>k. RETRY_BASE_DELAY cfg * 2 ^ k) [0..<length (waits es)]"
      by simp
    with es show "\<exists>es. journal w' = journal w @ es
                \<and> waits es = sleeps tr
                \<and> waits es = map (\<lambda>k. RETRY_BASE_DELAY cfg * 2 ^ k) [0..<length (waits es)]
                \<and> rounds (RETRY_BASE_DELAY cfg) 0 es
                \<and> searches es \<le> attempts_made tr"
      by blast
  qed
  from t inc rej world show ?thesis by blast
qed

theorem search_single_retries_witness:
  "(\<forall>d u. snd (asyncio_sleep rt_journal d u) = snd u @ [Waited d])
   \<and> (\<forall>c u. snd (snd (search adapter_journal c u)) = snd u @ [Searched])
   \<and> map_of (adapters up_journal) ''rate_hawk'' = Some adapter_journal
   \<and> snd (snd (search_single rt_journal Config svc_plain up_journal ''rate_hawk'' crit_example
                  (1000, [])))
       = ((1078, [Searched, Waited 1, Searched, Waited 2, Searched]),
          [Attempted (Some TimeoutError), Slept 1, Attempted (Some TimeoutError), Slept 2,
           Attempted (Some TimeoutError)])
   \<and> retries_follow_transient
       [Attempted (Some TimeoutError), Slept 1, Attempted (Some TimeoutError), Slept 2,
        Attempted (Some TimeoutError)]
   \<and> rounds (RETRY_BASE_DELAY Config) 0 [Searched, Waited 1, Searched, Waited 2, Searched]
   \<and> 0 < RETRY_BASE_DELAY Config
   \<and> sorted_wrt (<) [1, 2 :: real]
   \<and> map_of (adapters up_journal) ''goglobal'' = Some adapter_journal
   \<and> circuit_breakers up_journal ''goglobal'' = Some cb_opened
   \<and> fst (state (time_time rt_journal (1010, [])) cb_opened) = OPEN
   \<and> snd (snd (search_single rt_journal Config svc_plain up_journal ''goglobal''
                  crit_example (1010, []))) = ((1010, []), [])
   \<and> (\<exists>out. fst (search_single rt_journal Config svc_plain up_journal ''goglobal''
                   crit_example (1010, [])) = Inr (Some out)
            \<and> status out = ''error'' \<and> error out = Some (ProtectionActive ''goglobal''))"
proof -
  have sl: "\<forall>d u. snd (asyncio_sleep rt_journal d u) = snd u @ [Waited d]"
    by (simp add: rt_journal_def)
  have se: "\<forall>c u. snd (snd (search adapter_journal c u)) = snd u @ [Searched]"
    by (simp add: adapter_journal_def)
  have a: "map_of (adapters up_journal) ''rate_hawk'' = Some adapter_journal"
      "map_of (adapters up_journal) ''goglobal'' = Some adapter_journal"
    by (simp_all add: up_journal_def)
  from se a have lg: "\<forall>b c u. map_of (adapters up_journal) ''rate_hawk'' = Some b
      \<longrightarrow> snd (snd (search b c u)) = snd u @ [Searched]"
    and lg': "\<forall>b c u. map_of (adapters up_journal) ''goglobal'' = Some b
      \<longrightarrow> snd (snd (search b c u)) = snd u @ [Searched]"
    by simp_all
  have g: "circuit_breakers up_journal ''goglobal'' = Some cb_opened"
    by (simp add: up_journal_def)
  have o: "fst (state (time_time rt_journal (1010, [])) cb_opened) = OPEN"
    by (simp add: rt_journal_def state_def update_state_def cb_opened_def cb_fresh_def)
  have b: "0 < RETRY_BASE_DELAY Config" by (simp add: Config_def)
  from search_single_retries [where journal = snd, OF run_journal_open] sl lg' g o
  have rejected: "snd (snd (search_single rt_journal Config svc_plain up_journal ''goglobal''
                  crit_example (1010, []))) = ((1010, []), [])"
    by (simp add: run_journal_open)
  have text_open: "\<exists>out. fst (search_single rt_journal Config svc_plain up_journal ''goglobal''
                   crit_example (1010, [])) = Inr (Some out)
            \<and> status out = ''error'' \<and> error out = Some (ProtectionActive ''goglobal'')"
    by (simp add: run_journal_open)
  from search_single_retries [where journal = snd, OF run_journal] sl lg b
  have "retries_follow_transient
       [Attempted (Some TimeoutError), Slept 1, Attempted (Some TimeoutError), Slept 2,
        Attempted (Some TimeoutError)]"
    and "sorted_wrt (<) [1, 2 :: real]"
    and "\<exists>es. [Searched, Waited 1, Searched, Waited 2, Searched] = es
           \<and> rounds (RETRY_BASE_DELAY Config) 0 es"
    by simp_all
  with sl se a g o b rejected text_open show ?thesis
    by (simp add: run_journal)
qed

subsection \<open>Properties of \<^verbatim>\<open>search_all\<close>\<close>

lemma dict_set_key_set: "fst ` set (dict_set k v d) = insert k (fst ` set d)"
proof (induction d)
  case Nil
  then show ?case by simp
next
  case (Cons kv d)
  obtain k' v' where kv: "kv = (k', v')" by (cases kv)
  show ?case
  proof (cases "k' = k")
    case True
    with kv show ?thesis by simp
  next
    case False
    have "fst ` set (dict_set k v (kv # d)) = insert k' (fst ` set (dict_set k v d))"
      using False kv by simp
    also have "\<dots> = insert k' (insert k (fst ` set d))"
      by (simp only: Cons.IH)
    finally show ?thesis using kv by auto
  qed
qed

lemma dict_set_keys:
  "map fst (dict_set k v d) = (if k \<in> fst ` set d then map fst d else map fst d @ [k])"
proof (induction d)
  case Nil
  then show ?case by simp
next
  case (Cons kv d)
  obtain k' v' where kv: "kv = (k', v')" by (cases kv)
  show ?case
  proof (cases "k' = k")
    case True
    with kv show ?thesis by simp
  next
    case False
    with kv Cons.IH show ?thesis by auto
  qed
qed

lemma dict_set_new: "k \<notin> fst ` set d \<Longrightarrow> dict_set k v d = d @ [(k, v)]"
  by (induction d) auto

lemma dict_set_twice: "dict_set k v (dict_set k v' d) = dict_set k v d"
  by (induction d) auto

lemma dict_set_subset: "set (dict_set k v d) \<subseteq> insert (k, v) (set d)"
proof (induction d)
  case Nil
  then show ?case by simp
next
  case (Cons kv d)
  obtain k' v' where kv: "kv = (k', v')" by (cases kv)
  show ?case
  proof (cases "k' = k")
    case True
    with kv show ?thesis by auto
  next
    case False
    with kv have "set (dict_set k v (kv # d)) = insert kv (set (dict_set k v d))" by simp
    with Cons.IH show ?thesis by auto
  qed
qed

lemma dict_set_member: "(k, v) \<in> set (dict_set k v d)"
  by (induction d) auto

text \<open>Filling a \<^verbatim>\<open>dict\<close> from a list of items, each stored under its first component.\<close>

lemma fold_dict_set_new:
  "distinct (map fst xs) \<Longrightarrow> fst ` set xs \<inter> fst ` set d = {}
     \<Longrightarrow> foldl (\<lambda>d x. dict_set (fst x) (f x) d) d xs = d @ map (\<lambda>x. (fst x, f x)) xs"
proof (induction xs arbitrary: d)
  case Nil
  then show ?case by simp
next
  case (Cons x xs)
  from Cons.prems have new: "fst x \<notin> fst ` set d" by auto
  from Cons.prems have "distinct (map fst xs)"
      "fst ` set xs \<inter> fst ` set (d @ [(fst x, f x)]) = {}"
    by auto
  from Cons.IH [OF this] new show ?case
    by (simp add: dict_set_new)
qed

lemma fold_dict_set_keys:
  "distinct (map fst d)
     \<Longrightarrow> distinct (map fst (foldl (\<lambda>d x. dict_set (fst x) (f x) d) d xs))
       \<and> set (map fst (foldl (\<lambda>d x. dict_set (fst x) (f x) d) d xs))
           = fst ` set d \<union> fst ` set xs"
proof (induction xs arbitrary: d)
  case Nil
  then show ?case by simp
next
  case (Cons x xs)
  from Cons.prems have d: "distinct (map fst (dict_set (fst x) (f x) d))"
    by (simp add: dict_set_keys)
  have s: "fst ` set (dict_set (fst x) (f x) d) = insert (fst x) (fst ` set d)"
    by (rule dict_set_key_set)
  from Cons.IH [OF d] s show ?case by auto
qed

lemma fold_dict_set_subset:
  "set (foldl (\<lambda>d x. dict_set (fst x) (f x) d) d xs)
     \<subseteq> set d \<union> (\<lambda>x. (fst x, f x)) ` set xs"
proof (induction xs arbitrary: d)
  case Nil
  then show ?case by simp
next
  case (Cons x xs)
  from Cons.IH [of "dict_set (fst x) (f x) d"] dict_set_subset [of "fst x" "f x" d]
  show ?case by auto
qed

lemma names_of_numbered: "map fst (zip names [0..<length names]) = names"
  by (simp add: map_fst_zip)

lemma provider_tasks_keys:
  "distinct (map fst (provider_tasks names))"
  "set (map fst (provider_tasks names)) = set names"
proof -
  have "fst ` set (zip names [0..<length names]) = set names"
    using names_of_numbered [of names] by (metis set_map)
  with fold_dict_set_keys [of "[]" snd "zip names [0..<length names]"]
  show "distinct (map fst (provider_tasks names))"
      "set (map fst (provider_tasks names)) = set names"
    by (simp_all add: provider_tasks_def)
qed

lemma provider_tasks_distinct:
  assumes "distinct names"
  shows "provider_tasks names = zip names [0..<length names]"
proof -
  from assms have "distinct (map fst (zip names [0..<length names]))"
    by (simp add: names_of_numbered)
  from fold_dict_set_new [OF this, of "[]" snd] show ?thesis
    by (simp add: provider_tasks_def)
qed

lemma provider_tasks_member:
  assumes "(p, t) \<in> set (provider_tasks names)"
  shows "t < length names \<and> names ! t = p"
proof -
  from fold_dict_set_subset [of snd "[]" "zip names [0..<length names]"] assms
  have "(p, t) \<in> set (zip names [0..<length names])"
    by (auto simp: provider_tasks_def)
  then obtain i where "i < length names" "names ! i = p" "[0..<length names] ! i = t"
    by (auto simp: in_set_zip)
  then show ?thesis by simp
qed

lemma providers_to_search_distinct:
  assumes "distinct available"
    and "\<forall>sel. crit_providers crit = Some sel \<longrightarrow> distinct sel"
  shows "distinct (providers_to_search available crit)"
  using assms
  by (auto simp: providers_to_search_def Let_def split: option.splits)

text \<open>
  Claim C6. With the loaded suppliers \<open>available\<close>: without a providers list, or with an
  empty one, all loaded suppliers are searched; a list that names only unknown suppliers
  falls back to all loaded suppliers; otherwise the list filtered to the loaded suppliers
  is searched, in the order given. When the criteria carry a hotel name, \<^verbatim>\<open>search_all\<close>
  creates its tasks for exactly these suppliers.
\<close>

theorem search_all_resolves_providers:
  "(crit_providers crit = None \<or> crit_providers crit = Some []
      \<longrightarrow> providers_to_search available crit = available)
   \<and> (\<forall>sel. crit_providers crit = Some sel \<and> (\<forall>p\<in>set sel. p \<notin> set available)
          \<longrightarrow> providers_to_search available crit = available)
   \<and> (\<forall>sel. crit_providers crit = Some sel \<and> (\<exists>p\<in>set sel. p \<in> set available)
          \<longrightarrow> providers_to_search available crit = filter (\<lambda>p. p \<in> set available) sel
            \<and> set (providers_to_search available crit) = set sel \<inter> set available)
   \<and> ((\<exists>hs. crit_hotel_names crit = Some hs \<and> hs \<noteq> [])
          \<longrightarrow> fst (snd (snd (search_all rt wait_for_gather self crit w)))
              = providers_to_search (map fst (adapters self)) crit)"
proof (intro conjI allI impI)
  assume "crit_providers crit = None \<or> crit_providers crit = Some []"
  then show "providers_to_search available crit = available"
    by (auto simp: providers_to_search_def)
next
  fix sel
  assume "crit_providers crit = Some sel \<and> (\<forall>p\<in>set sel. p \<notin> set available)"
  then have "crit_providers crit = Some sel" "filter (\<lambda>p. p \<in> set available) sel = []"
    by (auto simp: filter_empty_conv)
  then show "providers_to_search available crit = available"
    by (simp add: providers_to_search_def Let_def)
next
  fix sel
  assume a: "crit_providers crit = Some sel \<and> (\<exists>p\<in>set sel. p \<in> set available)"
  then have "sel \<noteq> []" "filter (\<lambda>p. p \<in> set available) sel \<noteq> []"
    by (auto simp: filter_empty_conv)
  with a show v: "providers_to_search available crit = filter (\<lambda>p. p \<in> set available) sel"
    by (simp add: providers_to_search_def Let_def)
  show "set (providers_to_search available crit) = set sel \<inter> set available"
    unfolding v by auto
next
  assume "\<exists>hs. crit_hotel_names crit = Some hs \<and> hs \<noteq> []"
  then show "fst (snd (snd (search_all rt wait_for_gather self crit w)))
      = providers_to_search (map fst (adapters self)) crit"
    by (auto simp: search_all_def Let_def split: prod.splits option.splits)
qed

theorem search_all_resolves_providers_witness:
  "providers_to_search [''rate_hawk'', ''tbo''] crit_example = [''rate_hawk'', ''tbo'']
   \<and> providers_to_search [''rate_hawk'', ''tbo''] (crit_example\<lparr>crit_providers := Some []\<rparr>)
       = [''rate_hawk'', ''tbo'']
   \<and> providers_to_search [''rate_hawk'', ''tbo'']
        (crit_example\<lparr>crit_providers := Some [''expedia'']\<rparr>) = [''rate_hawk'', ''tbo'']
   \<and> providers_to_search [''rate_hawk'', ''tbo'']
        (crit_example\<lparr>crit_providers := Some [''tbo'', ''expedia'']\<rparr>) = [''tbo'']
   \<and> fst (snd (snd (search_all rt_example (\<lambda>awaited t w. (DeadlineElapsed (\<lambda>i. Running), w + t))
                  up_example (crit_example\<lparr>crit_providers := Some [''tbo'', ''expedia'']\<rparr>)
                  1000))) = [''tbo'']"
proof -
  let ?av = "[''rate_hawk'', ''tbo'']"
  let ?c = "crit_example\<lparr>crit_providers := Some [''tbo'', ''expedia'']\<rparr>"
  let ?wait = "\<lambda>(awaited::nat list) (t::real) (w::real). (DeadlineElapsed (\<lambda>i. Running), w + t)"
  have av: "map fst (adapters up_example) = ?av" by (simp add: up_example_def)
  have p1: "crit_providers crit_example = None" by (simp add: crit_example_def)
  have h: "\<exists>hs. crit_hotel_names ?c = Some hs \<and> hs \<noteq> []" by (simp add: crit_example_def)
  from search_all_resolves_providers [of crit_example ?av rt_example ?wait up_example 1000] p1
  have 1: "providers_to_search ?av crit_example = ?av" by simp
  from search_all_resolves_providers
         [of "crit_example\<lparr>crit_providers := Some []\<rparr>" ?av rt_example ?wait up_example 1000]
  have 2: "providers_to_search ?av (crit_example\<lparr>crit_providers := Some []\<rparr>) = ?av" by simp
  from search_all_resolves_providers
         [of "crit_example\<lparr>crit_providers := Some [''expedia'']\<rparr>" ?av rt_example ?wait
            up_example 1000]
  have 3: "providers_to_search ?av (crit_example\<lparr>crit_providers := Some [''expedia'']\<rparr>) = ?av"
    by simp
  from search_all_resolves_providers [of ?c ?av rt_example ?wait up_example 1000]
  have 4: "providers_to_search ?av ?c = [''tbo'']" by simp
  from search_all_resolves_providers
         [of ?c "map fst (adapters up_example)" rt_example ?wait up_example 1000] h
  have 5: "fst (snd (snd (search_all rt_example ?wait up_example ?c 1000))) = [''tbo'']"
    by (simp add: av 4)
  from 1 2 3 4 5 show ?thesis by simp
qed

lemma search_all_no_hotel_names_aux:
  assumes "crit_hotel_names crit = None \<or> crit_hotel_names crit = Some []"
  shows "providers (projr (fst (search_all rt wait_for_gather self crit w))) = []
       \<and> \<not> isl (fst (search_all rt wait_for_gather self crit w))"
  using assms by (auto simp: search_all_def Let_def)

text \<open>
  Claim C9. When the criteria have no hotel names (the key is missing, or the list is
  empty), \<^verbatim>\<open>search_all\<close> returns at once: the providers map is empty, \<open>total_offers\<close>,
  \<open>successful_providers\<close> and \<open>hotel_count\<close> are 0, no task is created, none is cancelled,
  and the fan-out is not awaited, so the world is as it was. This holds whatever the
  providers list says and whatever the suppliers would have done.
\<close>

theorem search_all_no_hotel_names:
  assumes "crit_hotel_names crit = None \<or> crit_hotel_names crit = Some []"
  shows "\<exists>agg. search_all rt wait_for_gather self crit w = (Inr agg, w, [], [])
            \<and> providers agg = [] \<and> total_offers (summary agg) = 0
            \<and> successful_providers (summary agg) = 0 \<and> hotel_count (summary agg) = 0"
  using assms by (auto simp: search_all_def Let_def)

theorem search_all_no_hotel_names_witness:
  "crit_hotel_names (crit_example\<lparr>crit_hotel_names := Some [], crit_providers := Some [''tbo'']\<rparr>)
     = Some []
   \<and> (\<exists>agg. search_all rt_example (\<lambda>awaited t w. (DeadlineElapsed (\<lambda>i. Running), w + t))
               up_example
               (crit_example\<lparr>crit_hotel_names := Some [], crit_providers := Some [''tbo'']\<rparr>) 1000
             = (Inr agg, 1000, [], [])
            \<and> providers agg = [] \<and> total_offers (summary agg) = 0
            \<and> successful_providers (summary agg) = 0 \<and> hotel_count (summary agg) = 0)"
proof -
  let ?c = "crit_example\<lparr>crit_hotel_names := Some [], crit_providers := Some [''tbo'']\<rparr>"
  have h: "crit_hotel_names ?c = None \<or> crit_hotel_names ?c = Some []" by simp
  from search_all_no_hotel_names [OF h] show ?thesis by simp
qed

text \<open>The handler of the timeout, as a whole.\<close>

lemma collect_partial_fold:
  "fst (collect_partial st snap ts res offs canc)
     = foldl (\<lambda>d x. dict_set (fst x) (Mapping (partial_entry st (snap (snd x)))) d) res ts"
proof (induction ts arbitrary: res offs canc)
  case Nil
  then show ?case by simp
next
  case (Cons x ts)
  obtain p t where x: "x = (p, t)" by (cases x)
  show ?case
  proof (cases "snap t")
    case Running
    with x show ?thesis by (simp add: Cons.IH)
  next
    case (Done out)
    show ?thesis
    proof (cases out)
      case (Inl e)
      with Done x show ?thesis by (simp add: Cons.IH)
    next
      case (Inr ro)
      with Done x show ?thesis by (cases ro) (simp_all add: Cons.IH dict_set_twice)
    qed
  qed
qed

lemma collect_partial_cancelled:
  "snd (snd (collect_partial st snap ts res offs canc))
     = canc @ filter (\<lambda>t. snap t = Running) (map snd ts)"
proof (induction ts arbitrary: res offs canc)
  case Nil
  then show ?case by simp
next
  case (Cons x ts)
  obtain p t where x: "x = (p, t)" by (cases x)
  show ?case
  proof (cases "snap t")
    case Running
    with x show ?thesis by (simp add: Cons.IH)
  next
    case (Done out)
    show ?thesis
    proof (cases out)
      case (Inl e)
      with Done x show ?thesis by (simp add: Cons.IH)
    next
      case (Inr ro)
      with Done x show ?thesis by (cases ro) (simp_all add: Cons.IH)
    qed
  qed
qed

lemma mappings_map:
  "mappings (map (\<lambda>x. (fst x, Mapping (g x))) xs) = Some (map (\<lambda>x. (fst x, g x)) xs)"
  by (induction xs) simp_all

lemma count_status_entries:
  "count_status s (map (\<lambda>x. (fst x, g x)) xs) = length (filter (\<lambda>x. status (g x) = s) xs)"
  by (induction xs) (simp_all add: count_status_def)

lemma partial_entry_timeout:
  "status (partial_entry st t) = ''timeout''
     \<longleftrightarrow> in_flight t \<or> (\<exists>r. t = Done (Inr (Some r)) \<and> status r = ''timeout'')"
proof (cases t)
  case Running
  then show ?thesis by (simp add: timeout_entry_def)
next
  case (Done out)
  show ?thesis
  proof (cases out)
    case (Inl e)
    with Done show ?thesis by (simp add: timeout_entry_def error_entry_def)
  next
    case (Inr ro)
    with Done show ?thesis by (cases ro) (simp_all add: error_entry_def)
  qed
qed

lemma in_flight_entry:
  "in_flight t \<Longrightarrow> status (partial_entry st t) = ''timeout'' \<and> offers (partial_entry st t) = []
      \<and> (\<exists>msg. error (partial_entry st t) = Some msg \<and> (\<forall>e. msg \<noteq> StrOf e))"
proof (cases t)
  case Running
  then show ?thesis by (simp add: timeout_entry_def)
next
  case (Done out)
  assume "in_flight t"
  with Done show ?thesis by (cases out) (simp_all add: timeout_entry_def)
qed

lemma reduce_deadline:
  "reduce_fanout ms st names tasks (DeadlineElapsed snapshot)
     = (foldl (\<lambda>d x. dict_set (fst x) (Mapping (partial_entry st (snapshot (snd x)))) d) [] tasks,
        fst (snd (collect_partial st snapshot tasks [] [] [])),
        filter (\<lambda>t. snapshot t = Running) (map snd tasks))"
  using collect_partial_fold [of st snapshot tasks "[]" "[]" "[]"]
    collect_partial_cancelled [of st snapshot tasks "[]" "[]" "[]"]
  by (cases "collect_partial st snapshot tasks [] [] []") (simp add: reduce_fanout_def)

lemma search_all_deadline:
  assumes hotels: "crit_hotel_names crit = Some hs" "hs \<noteq> []"
    and names: "names = providers_to_search (map fst (adapters self)) crit"
    and st: "search_timeout = (case crit_search_timeout crit of None \<Rightarrow> 10 | Some t \<Rightarrow> t)"
    and elapsed: "wait_for_gather (map snd (provider_tasks names)) search_timeout w
                    = (DeadlineElapsed snapshot, w')"
  shows "\<exists>agg. search_all rt wait_for_gather self crit w
                 = (Inr agg, w', names,
                    filter (\<lambda>t. snapshot t = Running) (map snd (provider_tasks names)))
          \<and> providers agg = map (\<lambda>x. (fst x, partial_entry search_timeout (snapshot (snd x))))
                                (provider_tasks names)
          \<and> timeout_providers (summary agg)
              = Some (length (filter (\<lambda>x. status (partial_entry search_timeout (snapshot (snd x)))
                                             = ''timeout'')
                                (provider_tasks names)))"
proof -
  define tasks where "tasks = provider_tasks names"
  let ?g = "\<lambda>x. partial_entry search_timeout (snapshot (snd x))"
  have "distinct (map fst tasks)" by (simp add: tasks_def provider_tasks_keys(1))
  from fold_dict_set_new [OF this, of "[]" "\<lambda>x. Mapping (?g x)"]
  have res: "foldl (\<lambda>d x. dict_set (fst x) (Mapping (?g x)) d) [] tasks
          = map (\<lambda>x. (fst x, Mapping (?g x))) tasks"
    by simp
  obtain offs where c: "reduce_fanout ms search_timeout names tasks (DeadlineElapsed snapshot)
      = (map (\<lambda>x. (fst x, Mapping (?g x))) tasks, offs,
         filter (\<lambda>t. snapshot t = Running) (map snd tasks))" for ms
    by (simp add: reduce_deadline res)
  have s: "summarize ms hs search_timeout (map (\<lambda>x. (fst x, Mapping (?g x))) tasks) offs
      = Inr \<lparr> providers = map (\<lambda>x. (fst x, ?g x)) tasks,
               summary =
                 \<lparr> total_offers = length offs,
                   successful_providers = count_status ''success'' (map (\<lambda>x. (fst x, ?g x)) tasks),
                   error_providers = Some (count_status ''error'' (map (\<lambda>x. (fst x, ?g x)) tasks)),
                   timeout_providers = Some (count_status ''timeout'' (map (\<lambda>x. (fst x, ?g x)) tasks)),
                   total_processing_time_ms = ms,
                   hotel_count = length hs, hotels_searched = Some hs,
                   search_timeout_used = Some search_timeout \<rparr> \<rparr>" for ms
    by (simp add: summarize_def mappings_map)
  have "search_all rt wait_for_gather self crit w
      = (summarize (elapsed_ms rt (time_time rt w) w') hs search_timeout
           (map (\<lambda>x. (fst x, Mapping (?g x))) tasks) offs, w', names,
         filter (\<lambda>t. snapshot t = Running) (map snd tasks))"
    using hotels elapsed
    by (simp add: search_all_def Let_def names [symmetric] st [symmetric] tasks_def [symmetric] c)
  then show ?thesis
    unfolding tasks_def [symmetric]
    by (simp add: s count_status_entries)
qed

text \<open>
  When no name is searched twice, the tasks stored are all the tasks created, and on
  the deadline the handler goes through all of them: the providers map has the entry
  of the \<open>i\<close>-th unit under the \<open>i\<close>-th name, and the tasks cancelled are those still
  running.
\<close>

lemma search_all_deadline_distinct:
  assumes hotels: "crit_hotel_names crit = Some hs" "hs \<noteq> []"
    and names: "names = providers_to_search (map fst (adapters self)) crit"
    and dist: "distinct names"
    and st: "search_timeout = (case crit_search_timeout crit of None \<Rightarrow> 10 | Some t \<Rightarrow> t)"
    and elapsed: "wait_for_gather [0..<length names] search_timeout w
                    = (DeadlineElapsed snapshot, w')"
  shows "\<exists>agg. search_all rt wait_for_gather self crit w
                 = (Inr agg, w', names,
                    filter (\<lambda>t. snapshot t = Running) [0..<length names])
          \<and> providers agg = map (\<lambda>t. (names ! t, partial_entry search_timeout (snapshot t)))
                                [0..<length names]
          \<and> timeout_providers (summary agg)
              = Some (length (filter (\<lambda>t. status (partial_entry search_timeout (snapshot t))
                                             = ''timeout'')
                                [0..<length names]))"
proof -
  have tasks: "provider_tasks names = zip names [0..<length names]"
    using dist by (rule provider_tasks_distinct)
  have ids: "map snd (zip names [0..<length names]) = [0..<length names]"
    by (simp add: map_snd_zip)
  have z: "zip names [0..<length names] = map (\<lambda>t. (names ! t, t)) [0..<length names]"
    by (rule nth_equalityI) simp_all
  from elapsed have e: "wait_for_gather (map snd (provider_tasks names)) search_timeout w
      = (DeadlineElapsed snapshot, w')"
    by (simp add: tasks ids)
  from search_all_deadline
         [where wait_for_gather = wait_for_gather and w = w and snapshot = snapshot
            and w' = w' and rt = rt, OF hotels names st e]
  obtain agg where agg: "search_all rt wait_for_gather self crit w
                 = (Inr agg, w', names,
                    filter (\<lambda>t. snapshot t = Running) (map snd (provider_tasks names)))"
    "providers agg = map (\<lambda>x. (fst x, partial_entry search_timeout (snapshot (snd x))))
                                (provider_tasks names)"
    "timeout_providers (summary agg)
       = Some (length (filter (\<lambda>x. status (partial_entry search_timeout (snapshot (snd x)))
                                      = ''timeout'')
                         (provider_tasks names)))"
    by blast
  from agg(1) have 1: "search_all rt wait_for_gather self crit w
      = (Inr agg, w', names, filter (\<lambda>t. snapshot t = Running) [0..<length names])"
    by (simp add: tasks ids)
  have 2: "providers agg = map (\<lambda>t. (names ! t, partial_entry search_timeout (snapshot t)))
                                [0..<length names]"
    unfolding agg(2) tasks by (subst z) (simp add: comp_def)
  have "filter (\<lambda>x. status (partial_entry search_timeout (snapshot (snd x))) = ''timeout'')
          (map (\<lambda>t. (names ! t, t)) [0..<length names])
      = map (\<lambda>t. (names ! t, t))
          (filter (\<lambda>t. status (partial_entry search_timeout (snapshot t)) = ''timeout'')
             [0..<length names])"
    by (simp add: filter_map comp_def)
  then have 3: "timeout_providers (summary agg)
      = Some (length (filter (\<lambda>t. status (partial_entry search_timeout (snapshot t)) = ''timeout'')
                        [0..<length names]))"
    unfolding agg(3) tasks by (subst z) simp
  from 1 2 3 show ?thesis by blast
qed

lemma run_deadline_replaced:
  "search_all rt_example wait_replaced up_example crit_repeated 1000
   = (Inr \<lparr> providers = [(''rate_hawk'', timeout_entry CancelledDuringTimeout None),
                          (''tbo'', outcome_tbo)],
            summary = \<lparr> total_offers = 1, successful_providers = 1, error_providers = Some 0,
                        timeout_providers = Some 1, total_processing_time_ms = 10000,
                        hotel_count = 1, hotels_searched = Some [''Banyan Tree Krabi''],
                        search_timeout_used = Some 10 \<rparr> \<rparr>,
      1010, [''rate_hawk'', ''rate_hawk'', ''tbo''], [])"
  by (simp add: search_all_def Let_def crit_repeated_def crit_example_def up_example_def
        providers_to_search_def provider_tasks_def wait_replaced_def snapshot_replaced_def
        reduce_fanout_def summarize_def count_status_def outcome_tbo_def timeout_entry_def
        rt_example_def elapsed_ms_def py_int_def)

lemma run_deadline_running:
  "search_all rt_example (wait_running [''rate_hawk'', ''rate_hawk'', ''tbo'']) up_example
     crit_repeated 1000
   = (Inr \<lparr> providers = [(''rate_hawk'', timeout_entry (TimedOutAfter 10) (Some 10000)),
                          (''tbo'', outcome_tbo)],
            summary = \<lparr> total_offers = 1, successful_providers = 1, error_providers = Some 0,
                        timeout_providers = Some 1, total_processing_time_ms = 10000,
                        hotel_count = 1, hotels_searched = Some [''Banyan Tree Krabi''],
                        search_timeout_used = Some 10 \<rparr> \<rparr>,
      1010, [''rate_hawk'', ''rate_hawk'', ''tbo''], [1])"
  by (simp add: search_all_def Let_def crit_repeated_def crit_example_def up_example_def
        providers_to_search_def provider_tasks_def wait_running_def unit_running_def
        reduce_fanout_def summarize_def count_status_def outcome_tbo_def timeout_entry_def
        rt_example_def elapsed_ms_def py_int_def)

text \<open>
  Claim C2 fails on a request that names a supplier twice. The request names
  \<open>rate_hawk\<close> twice and then \<open>tbo\<close>, so three units are created, the tasks 0, 1 and 2,
  and \<^verbatim>\<open>provider_tasks\<close> holds the tasks 1 and 2. The deadline elapses with the unit of
  \<open>tbo\<close> finished and both units of \<open>rate_hawk\<close> in flight. When the expiring wait has
  cancelled the task 1, \<^verbatim>\<open>search_all\<close> cancels no task and reports one timeout: the task
  0, still running, is neither cancelled nor recorded. When the task 1 is still running
  as well, \<^verbatim>\<open>search_all\<close> cancels the task 1 only, and again reports one timeout for the
  two units in flight.
\<close>

theorem search_all_deadline_replaced_unit:
  "providers_to_search (map fst (adapters up_example)) crit_repeated
     = [''rate_hawk'', ''rate_hawk'', ''tbo'']
   \<and> provider_tasks [''rate_hawk'', ''rate_hawk'', ''tbo''] = [(''rate_hawk'', 1), (''tbo'', 2)]
   \<and> snapshot_replaced 0 = Running \<and> in_flight (snapshot_replaced 0)
   \<and> in_flight (snapshot_replaced 1)
   \<and> search_all rt_example wait_replaced up_example crit_repeated 1000
       = (Inr \<lparr> providers = [(''rate_hawk'', timeout_entry CancelledDuringTimeout None),
                              (''tbo'', outcome_tbo)],
                summary = \<lparr> total_offers = 1, successful_providers = 1, error_providers = Some 0,
                            timeout_providers = Some 1, total_processing_time_ms = 10000,
                            hotel_count = 1, hotels_searched = Some [''Banyan Tree Krabi''],
                            search_timeout_used = Some 10 \<rparr> \<rparr>,
          1010, [''rate_hawk'', ''rate_hawk'', ''tbo''], [])
   \<and> unit_running ([''rate_hawk'', ''rate_hawk'', ''tbo''] ! 0) = Running
   \<and> unit_running ([''rate_hawk'', ''rate_hawk'', ''tbo''] ! 1) = Running
   \<and> search_all rt_example (wait_running [''rate_hawk'', ''rate_hawk'', ''tbo'']) up_example
        crit_repeated 1000
       = (Inr \<lparr> providers = [(''rate_hawk'', timeout_entry (TimedOutAfter 10) (Some 10000)),
                              (''tbo'', outcome_tbo)],
                summary = \<lparr> total_offers = 1, successful_providers = 1, error_providers = Some 0,
                            timeout_providers = Some 1, total_processing_time_ms = 10000,
                            hotel_count = 1, hotels_searched = Some [''Banyan Tree Krabi''],
                            search_timeout_used = Some 10 \<rparr> \<rparr>,
          1010, [''rate_hawk'', ''rate_hawk'', ''tbo''], [1])"
  by (simp add: run_deadline_replaced run_deadline_running)
     (simp add: providers_to_search_def crit_repeated_def crit_example_def up_example_def
        provider_tasks_def snapshot_replaced_def unit_running_def)

text \<open>The loop over the gathered results, as a whole.\<close>

lemma fill_missing_keeps:
  "(k, v) \<in> set d \<Longrightarrow> (k, v) \<in> set (fill_missing e names d)"
proof (induction names arbitrary: d)
  case Nil
  then show ?case by simp
next
  case (Cons p names)
  show ?case
  proof (cases "p \<in> fst ` set d")
    case True
    with Cons show ?thesis by simp
  next
    case False
    define v' where "v' = Mapping (error_entry (UnexpectedError e) None)"
    from False have "dict_set p v' d = d @ [(p, v')]" by (rule dict_set_new)
    with Cons.prems have "(k, v) \<in> set (dict_set p v' d)" by simp
    from Cons.IH [OF this] False show ?thesis by (simp add: v'_def)
  qed
qed

lemma mappings_None:
  "mappings d = None \<longleftrightarrow> (\<exists>k v. (k, v) \<in> set d \<and> (\<forall>r. v \<noteq> Mapping r))"
proof (induction d)
  case Nil
  then show ?case by simp
next
  case (Cons kv d)
  obtain k v where kv: "kv = (k, v)" by (cases kv)
  show ?case
  proof (cases v)
    case (Mapping r)
    with kv Cons show ?thesis by auto
  next
    case NoneObj
    with kv show ?thesis by auto
  next
    case (ExcObj e)
    with kv show ?thesis by auto
  qed
qed

lemma process_completed_good:
  "\<forall>x\<in>set xs. is_mapping_or_Exception (snd x)
     \<Longrightarrow> \<exists>offs'. process_completed ms xs res offs
           = (None, foldl (\<lambda>d x. dict_set (fst x) (Mapping (gathered_entry ms (snd x))) d) res xs,
              offs')"
proof (induction xs arbitrary: res offs)
  case Nil
  then show ?case by simp
next
  case (Cons x xs)
  obtain p out where x: "x = (p, out)" by (cases x)
  from Cons.prems have rest: "\<forall>x\<in>set xs. is_mapping_or_Exception (snd x)" by simp
  show ?case
  proof (cases out)
    case (Inl e)
    with Cons.prems x have "is_Exception e" by simp
    with Inl x Cons.IH [OF rest] show ?thesis by simp
  next
    case (Inr ro)
    with Cons.prems x obtain r where "ro = Some r" by (cases ro) auto
    with Inr x Cons.IH [OF rest] show ?thesis by simp
  qed
qed

lemma process_completed_bad:
  "\<exists>x\<in>set xs. \<not> is_mapping_or_Exception (snd x)
     \<Longrightarrow> \<exists>e res' offs'. process_completed ms xs res offs = (Some e, res', offs')
           \<and> (\<exists>k v. (k, v) \<in> set res' \<and> (\<forall>r. v \<noteq> Mapping r))"
proof (induction xs arbitrary: res offs)
  case Nil
  then show ?case by simp
next
  case (Cons x xs)
  obtain p out where x: "x = (p, out)" by (cases x)
  show ?case
  proof (cases "is_mapping_or_Exception out")
    case True
    with Cons.prems x have rest: "\<exists>x\<in>set xs. \<not> is_mapping_or_Exception (snd x)" by auto
    show ?thesis
    proof (cases out)
      case (Inl e)
      with True x Cons.IH [OF rest] show ?thesis by simp
    next
      case (Inr ro)
      with True obtain r where "ro = Some r" by (cases ro) auto
      with Inr x Cons.IH [OF rest] show ?thesis by simp
    qed
  next
    case False
    show ?thesis
    proof (cases out)
      case (Inl e)
      with False have "\<not> is_Exception e" by simp
      moreover have "(p, ExcObj e) \<in> set (dict_set p (ExcObj e) res)" by (rule dict_set_member)
      ultimately show ?thesis using Inl x by auto
    next
      case (Inr ro)
      with False have "ro = None" by (cases ro) auto
      moreover have "(p, NoneObj) \<in> set (dict_set p NoneObj res)" by (rule dict_set_member)
      ultimately show ?thesis using Inr x by auto
    qed
  qed
qed

lemma gathered_in_order:
  "zip names (map completed [0..<length names])
     = map (\<lambda>t. (names ! t, completed t)) [0..<length names]"
  by (rule nth_equalityI) simp_all

lemma reduce_gathered_good:
  assumes "distinct names" and "\<forall>t<length names. is_mapping_or_Exception (completed t)"
  shows "\<exists>offs. reduce_fanout ms st names (zip names [0..<length names]) (Gathered completed)
           = (map (\<lambda>t. (names ! t, Mapping (gathered_entry ms (completed t)))) [0..<length names],
              offs, [])"
proof -
  let ?xs = "map (\<lambda>t. (names ! t, completed t)) [0..<length names]"
  have keys: "map fst ?xs = names"
    by (simp add: comp_def map_nth)
  from assms(2) have "\<forall>x\<in>set ?xs. is_mapping_or_Exception (snd x)" by simp
  from process_completed_good [OF this, of ms "[]" "[]"]
  obtain offs where pc: "process_completed ms ?xs [] []
      = (None, foldl (\<lambda>d x. dict_set (fst x) (Mapping (gathered_entry ms (snd x))) d) [] ?xs, offs)"
    by blast
  from assms(1) keys have "distinct (map fst ?xs)" by simp
  from fold_dict_set_new [OF this, of "[]" "\<lambda>x. Mapping (gathered_entry ms (snd x))"]
  have "foldl (\<lambda>d x. dict_set (fst x) (Mapping (gathered_entry ms (snd x))) d) [] ?xs
      = map (\<lambda>t. (names ! t, Mapping (gathered_entry ms (completed t)))) [0..<length names]"
    by (simp add: comp_def)
  with pc show ?thesis
    by (simp add: reduce_fanout_def map_snd_zip gathered_in_order)
qed

lemma reduce_gathered_bad:
  assumes "\<exists>t<length names. \<not> is_mapping_or_Exception (completed t)"
  shows "\<exists>res offs. reduce_fanout ms st names (zip names [0..<length names]) (Gathered completed)
                      = (res, offs, [])
           \<and> mappings res = None"
proof -
  let ?xs = "map (\<lambda>t. (names ! t, completed t)) [0..<length names]"
  from assms have "\<exists>x\<in>set ?xs. \<not> is_mapping_or_Exception (snd x)" by auto
  from process_completed_bad [OF this, of ms "[]" "[]"]
  obtain e res' offs' k v where pc: "process_completed ms ?xs [] [] = (Some e, res', offs')"
    and bad: "(k, v) \<in> set res'" "\<forall>r. v \<noteq> Mapping r"
    by blast
  from bad(1) have "(k, v) \<in> set (fill_missing e names res')" by (rule fill_missing_keeps)
  with bad(2) have "mappings (fill_missing e names res') = None"
    unfolding mappings_None by blast
  with pc show ?thesis
    by (simp add: reduce_fanout_def map_snd_zip gathered_in_order)
qed

lemma mappings_entries:
  "mappings (map (\<lambda>t. (k t, Mapping (g t))) ts) = Some (map (\<lambda>t. (k t, g t)) ts)"
  by (induction ts) simp_all

lemma search_all_gathered:
  assumes hotels: "crit_hotel_names crit = Some hs" "hs \<noteq> []"
    and names: "names = providers_to_search (map fst (adapters self)) crit"
    and dist: "distinct names"
    and st: "search_timeout = (case crit_search_timeout crit of None \<Rightarrow> 10 | Some t \<Rightarrow> t)"
    and gathered: "wait_for_gather [0..<length names] search_timeout w = (Gathered completed, w')"
  shows "if \<forall>t<length names. is_mapping_or_Exception (completed t)
         then \<exists>agg. fst (search_all rt wait_for_gather self crit w) = Inr agg
                \<and> providers agg
                    = map (\<lambda>t. (names ! t,
                                gathered_entry (elapsed_ms rt (time_time rt w) w') (completed t)))
                        [0..<length names]
         else fst (search_all rt wait_for_gather self crit w) = Inl not_subscriptable"
proof -
  define ms where "ms = elapsed_ms rt (time_time rt w) w'"
  have tasks: "provider_tasks names = zip names [0..<length names]"
    using dist by (rule provider_tasks_distinct)
  have unfold: "fst (search_all rt wait_for_gather self crit w)
      = (case reduce_fanout ms search_timeout names (zip names [0..<length names])
                (Gathered completed) of
           (res, offs, canc) \<Rightarrow> summarize ms hs search_timeout res offs)"
    using hotels gathered
    by (simp add: search_all_def Let_def names [symmetric] st [symmetric] tasks map_snd_zip
          ms_def split: prod.splits)
  show ?thesis
  proof (cases "\<forall>t<length names. is_mapping_or_Exception (completed t)")
    case True
    from reduce_gathered_good [OF dist True, of ms search_timeout]
    obtain offs where "reduce_fanout ms search_timeout names (zip names [0..<length names])
          (Gathered completed)
        = (map (\<lambda>t. (names ! t, Mapping (gathered_entry ms (completed t)))) [0..<length names],
           offs, [])"
      by blast
    with True show ?thesis
      by (simp add: unfold summarize_def mappings_entries ms_def)
  next
    case False
    then have "\<exists>t<length names. \<not> is_mapping_or_Exception (completed t)" by blast
    from reduce_gathered_bad [OF this, of ms search_timeout]
    obtain res offs where "reduce_fanout ms search_timeout names (zip names [0..<length names])
          (Gathered completed) = (res, offs, [])" "mappings res = None"
      by blast
    with False show ?thesis
      by (simp add: unfold summarize_def)
  qed
qed

text \<open>
  The run behind the second half of the counterexample below: the request names
  \<open>rate_hawk\<close> twice and then \<open>tbo\<close>, and every unit finishes in time.
\<close>

lemma search_all_repeated_name_run:
  "fst (search_all rt_example (wait_gathered [''rate_hawk'', ''rate_hawk'', ''tbo'']) up_example
          crit_repeated 1000)
   = Inr \<lparr> providers = [(''rate_hawk'', outcome_tbo)],
           summary = \<lparr> total_offers = 1, successful_providers = 1, error_providers = Some 0,
                       timeout_providers = Some 0, total_processing_time_ms = 3000,
                       hotel_count = 1, hotels_searched = Some [''Banyan Tree Krabi''],
                       search_timeout_used = Some 10 \<rparr> \<rparr>"
  by (simp add: search_all_def Let_def crit_repeated_def crit_example_def up_example_def
        providers_to_search_def provider_tasks_def wait_gathered_def unit_outcome_def
        reduce_fanout_def summarize_def count_status_def
        outcome_tbo_def outcome_rate_hawk_def rt_example_def elapsed_ms_def py_int_def)

text \<open>
  Claim C1, as stated, fails on two inputs. Without hotel names the providers map is
  empty although the request selects \<open>tbo\<close>, a loaded supplier (the guard of claim C9).
  And when the request names \<open>rate_hawk\<close> twice before \<open>tbo\<close> and all units finish in
  time, the map has the single key \<open>rate_hawk\<close>, holding the outcome of \<open>tbo\<close>, and no
  entry for \<open>tbo\<close>: the gathered results follow the values of \<^verbatim>\<open>provider_tasks\<close>, and are
  stored under the names of \<^verbatim>\<open>providers_to_search\<close> at the same positions.
\<close>

theorem search_all_entries_counterexample:
  "providers_to_search (map fst (adapters up_example))
      (crit_example\<lparr>crit_hotel_names := Some [], crit_providers := Some [''tbo'']\<rparr>) = [''tbo'']
   \<and> fst (search_all rt_example (wait_gathered [''tbo'']) up_example
            (crit_example\<lparr>crit_hotel_names := Some [], crit_providers := Some [''tbo'']\<rparr>) 1000)
       = Inr \<lparr> providers = [],
               summary = \<lparr> total_offers = 0, successful_providers = 0, error_providers = None,
                           timeout_providers = None, total_processing_time_ms = 0,
                           hotel_count = 0, hotels_searched = None,
                           search_timeout_used = None \<rparr> \<rparr>
   \<and> providers_to_search (map fst (adapters up_example))
        (crit_example\<lparr>crit_providers := Some [''rate_hawk'', ''rate_hawk'', ''tbo'']\<rparr>)
       = [''rate_hawk'', ''rate_hawk'', ''tbo'']
   \<and> map fst (providers (projr (fst (search_all rt_example
         (wait_gathered [''rate_hawk'', ''rate_hawk'', ''tbo'']) up_example
         (crit_example\<lparr>crit_providers := Some [''rate_hawk'', ''rate_hawk'', ''tbo'']\<rparr>) 1000))))
       = [''rate_hawk'']"
  using search_all_repeated_name_run
  by (simp add: crit_repeated_def)
     (simp add: search_all_def Let_def crit_example_def up_example_def providers_to_search_def
        rt_example_def elapsed_ms_def py_int_def)

text \<open>
  Claim C1, amended. Let the criteria carry a hotel name and let the providers list, if
  there is one, name no supplier twice (the loaded suppliers are the keys of a
  \<^verbatim>\<open>dict\<close>). Then every result \<^verbatim>\<open>search_all\<close> returns has exactly the suppliers searched
  as the keys of its providers map, each once and in the order searched, whether the
  fan-out was gathered in time or ran into the deadline and whatever each unit
  produced. And \<^verbatim>\<open>search_all\<close> returns a result except in one case: the fan-out was
  gathered in time and one of its values is no mapping and no \<^verbatim>\<open>Exception\<close>.
\<close>

theorem search_all_one_entry_per_supplier:
  assumes hotels: "crit_hotel_names crit = Some hs" "hs \<noteq> []"
    and dict_keys: "distinct (map fst (adapters self))"
    and no_repeat: "\<forall>sel. crit_providers crit = Some sel \<longrightarrow> distinct sel"
    and names: "names = providers_to_search (map fst (adapters self)) crit"
    and st: "search_timeout = (case crit_search_timeout crit of None \<Rightarrow> 10 | Some t \<Rightarrow> t)"
  shows "(\<forall>agg. fst (search_all rt wait_for_gather self crit w) = Inr agg
            \<longrightarrow> map fst (providers agg) = names \<and> distinct (map fst (providers agg)))
       \<and> (isl (fst (search_all rt wait_for_gather self crit w))
            \<longleftrightarrow> (\<exists>completed w'. wait_for_gather [0..<length names] search_timeout w
                                   = (Gathered completed, w')
                    \<and> (\<exists>t<length names. \<not> is_mapping_or_Exception (completed t))))"
proof -
  have dist: "distinct names"
    unfolding names using dict_keys no_repeat by (rule providers_to_search_distinct)
  have nth: "map (\<lambda>t. names ! t) [0..<length names] = names"
    by (rule map_nth)
  obtain outcome w' where wait: "wait_for_gather [0..<length names] search_timeout w = (outcome, w')"
    by (cases "wait_for_gather [0..<length names] search_timeout w")
  show ?thesis
  proof (cases outcome)
    case (DeadlineElapsed snapshot)
    with wait
    have e: "wait_for_gather [0..<length names] search_timeout w = (DeadlineElapsed snapshot, w')"
      by simp
    from search_all_deadline_distinct
           [where wait_for_gather = wait_for_gather and w = w and snapshot = snapshot
              and w' = w' and rt = rt, OF hotels names dist st e]
    obtain agg canc where agg: "search_all rt wait_for_gather self crit w = (Inr agg, w', names, canc)"
      "providers agg = map (\<lambda>t. (names ! t, partial_entry search_timeout (snapshot t)))
                          [0..<length names]"
      by blast
    from agg(2) have "map fst (providers agg) = names" by (simp add: comp_def nth)
    with agg(1) dist wait DeadlineElapsed show ?thesis by auto
  next
    case (Gathered completed)
    with wait have g: "wait_for_gather [0..<length names] search_timeout w = (Gathered completed, w')"
      by simp
    note run = search_all_gathered
                 [where wait_for_gather = wait_for_gather and w = w and completed = completed
                    and w' = w' and rt = rt, OF hotels names dist st g]
    show ?thesis
    proof (cases "\<forall>t<length names. is_mapping_or_Exception (completed t)")
      case True
      with run obtain agg where agg: "fst (search_all rt wait_for_gather self crit w) = Inr agg"
        "providers agg
           = map (\<lambda>t. (names ! t, gathered_entry (elapsed_ms rt (time_time rt w) w') (completed t)))
               [0..<length names]"
        by auto
      from agg(2) have "map fst (providers agg) = names" by (simp add: comp_def nth)
      with agg(1) dist g True show ?thesis by auto
    next
      case False
      with run have "fst (search_all rt wait_for_gather self crit w) = Inl not_subscriptable"
        by simp
      with g False show ?thesis by auto
    qed
  qed
qed

lemma names_up_three:
  "providers_to_search (map fst (adapters up_three)) crit_example
     = [''rate_hawk'', ''tbo'', ''goglobal'']"
  by (simp add: providers_to_search_def up_three_def up_example_def crit_example_def)

theorem search_all_one_entry_per_supplier_witness:
  "crit_hotel_names crit_example = Some [''Banyan Tree Krabi'']
   \<and> distinct (map fst (adapters up_three))
   \<and> crit_providers crit_example = None
   \<and> \<not> isl (fst (search_all rt_example (wait_gathered [''rate_hawk'', ''tbo'', ''goglobal''])
                     up_three crit_example 1000))
   \<and> map fst (providers (projr (fst (search_all rt_example
                 (wait_gathered [''rate_hawk'', ''tbo'', ''goglobal'']) up_three crit_example
                 1000))))
       = [''rate_hawk'', ''tbo'', ''goglobal'']"
proof -
  let ?names = "[''rate_hawk'', ''tbo'', ''goglobal'']"
  let ?wait = "wait_gathered ?names"
  have h: "crit_hotel_names crit_example = Some [''Banyan Tree Krabi'']"
      "[''Banyan Tree Krabi''] \<noteq> []"
    by (simp_all add: crit_example_def)
  have d: "distinct (map fst (adapters up_three))"
    by (simp add: up_three_def up_example_def)
  have p: "crit_providers crit_example = None" by (simp add: crit_example_def)
  then have nr: "\<forall>sel. crit_providers crit_example = Some sel \<longrightarrow> distinct sel" by simp
  have n: "?names = providers_to_search (map fst (adapters up_three)) crit_example"
    by (simp add: names_up_three)
  have t: "(10::real) = (case crit_search_timeout crit_example of None \<Rightarrow> 10 | Some t \<Rightarrow> t)"
    by (simp add: crit_example_def)
  note main = search_all_one_entry_per_supplier
               [where wait_for_gather = ?wait and w = "1000::real" and rt = rt_example,
                OF h d nr n t]
  have all: "is_mapping_or_Exception (unit_outcome p)" for p
    by (simp add: unit_outcome_def)
  have good: "\<not> (\<exists>completed w'. ?wait [0..<length ?names] 10 1000 = (Gathered completed, w')
                    \<and> (\<exists>t<length ?names. \<not> is_mapping_or_Exception (completed t)))"
    by (auto simp: wait_gathered_def all)
  with main have ret: "\<not> isl (fst (search_all rt_example ?wait up_three crit_example 1000))"
    by blast
  then obtain agg where agg: "fst (search_all rt_example ?wait up_three crit_example 1000)
      = Inr agg"
    by (cases "fst (search_all rt_example ?wait up_three crit_example 1000)") auto
  with main have "map fst (providers agg) = ?names" by blast
  with agg ret h(1) d p show ?thesis by simp
qed

lemma retry_loop_result:
  "retry_loop rt cfg svc adapter p crit st n attempt cbo w = (r, cbo', w', tr)
   \<Longrightarrow> n = 0 \<or> int (n + attempt) = MAX_RETRIES cfg
   \<Longrightarrow> (case r of
          Inr (Some out) \<Rightarrow> status out = ''success'' \<or> status out = ''error''
        | Inr None \<Rightarrow> n = 0
        | Inl e \<Rightarrow> \<not> is_Exception e)"
proof (induction n arbitrary: attempt cbo w r cbo' w' tr)
  case 0
  then show ?case by auto
next
  case (Suc n)
  obtain out cbo1 w1 where body: "attempt_body rt svc adapter p crit cbo w = (out, cbo1, w1)"
    by (cases "attempt_body rt svc adapter p crit cbo w")
  show ?case
  proof (cases out)
    case (Inr offs)
    with Suc.prems body show ?thesis
      by (auto split: prod.splits)
  next
    case (Inl e)
    let ?retry = "\<not> is_CircuitBreakerOpenError e \<and> is_Exception e
                  \<and> int attempt < MAX_RETRIES cfg - 1"
    show ?thesis
    proof (cases ?retry)
      case False
      with Suc.prems(1) body Inl show ?thesis
        by (auto split: prod.splits if_splits)
    next
      case True
      define delay where "delay = RETRY_BASE_DELAY cfg * 2 ^ attempt"
      obtain r2 cbo3 w3 tr' where rec:
        "retry_loop rt cfg svc adapter p crit st n (attempt + 1) cbo1 (asyncio_sleep rt delay w1)
           = (r2, cbo3, w3, tr')"
        by (metis prod_cases4)
      from True Suc.prems(1) body Inl rec have r: "r = r2"
        by (auto simp: Let_def delay_def split: prod.splits if_splits)
      from True Suc.prems(2) have n: "n \<noteq> 0" "n = 0 \<or> int (n + (attempt + 1)) = MAX_RETRIES cfg"
        by auto
      from Suc.IH [OF rec n(2)] n(1) show ?thesis
        by (auto simp: r split: sum.splits option.splits)
    qed
  qed
qed

lemma search_single_result:
  assumes "0 < MAX_RETRIES cfg"
  shows "case fst (search_single rt cfg svc self p crit w) of
           Inr (Some out) \<Rightarrow> status out = ''success'' \<or> status out = ''error''
         | Inr None \<Rightarrow> False
         | Inl e \<Rightarrow> \<not> is_Exception e"
proof (cases "map_of (adapters self) p")
  case None
  then show ?thesis by (simp add: search_single_unknown)
next
  case (Some adapter)
  show ?thesis
  proof (cases "\<exists>cb. circuit_breakers self p = Some cb \<and> fst (state (time_time rt w) cb) = OPEN")
    case True
    then obtain cb where "circuit_breakers self p = Some cb"
        "fst (state (time_time rt w) cb) = OPEN"
      by blast
    from search_single_open [OF Some this, of cfg svc crit] show ?thesis by auto
  next
    case False
    then have nopen: "\<forall>cb. circuit_breakers self p = Some cb
        \<longrightarrow> fst (state (time_time rt w) cb) \<noteq> OPEN"
      by blast
    define cbo where
      "cbo = map_option (\<lambda>cb. snd (state (time_time rt w) cb)) (circuit_breakers self p)"
    obtain r2 cbo2 w2 tr2 where loop:
      "retry_loop rt cfg svc adapter p crit (time_time rt w) (nat (MAX_RETRIES cfg)) 0 cbo w
         = (r2, cbo2, w2, tr2)"
      by (metis prod_cases4)
    from search_single_loop [OF Some nopen, of cfg svc crit] loop
    have r: "fst (search_single rt cfg svc self p crit w) = r2"
      by (simp add: cbo_def)
    from assms have inv: "nat (MAX_RETRIES cfg) = 0 \<or> int (nat (MAX_RETRIES cfg) + 0) = MAX_RETRIES cfg"
      and pos: "nat (MAX_RETRIES cfg) \<noteq> 0"
      by auto
    from retry_loop_result [OF loop inv] pos show ?thesis
      by (auto simp: r split: sum.splits option.splits)
  qed
qed

lemma not_Exception: "\<not> is_Exception e \<longleftrightarrow> e = CancelledError"
  by (cases e) simp_all

lemma no_timeout_dict_set:
  "no_timeout_entries d \<Longrightarrow> (\<forall>r. v = Mapping r \<longrightarrow> status r \<noteq> ''timeout'')
     \<Longrightarrow> no_timeout_entries (dict_set k v d)"
  using dict_set_subset [of k v d] unfolding no_timeout_entries_def by blast

lemma process_completed_no_timeout:
  "no_timeout_entries res
     \<Longrightarrow> \<forall>x\<in>set xs. \<forall>r. snd x = Inr (Some r) \<longrightarrow> status r \<noteq> ''timeout''
     \<Longrightarrow> no_timeout_entries (fst (snd (process_completed ms xs res offs)))"
proof (induction xs arbitrary: res offs)
  case Nil
  then show ?case by simp
next
  case (Cons x xs)
  obtain p out where x: "x = (p, out)" by (cases x)
  from Cons.prems(2) have rest: "\<forall>x\<in>set xs. \<forall>r. snd x = Inr (Some r) \<longrightarrow> status r \<noteq> ''timeout''"
    by simp
  show ?case
  proof (cases out)
    case (Inl e)
    show ?thesis
    proof (cases "is_Exception e")
      case True
      have "no_timeout_entries (dict_set p (Mapping (error_entry (StrOf e) (Some ms))) res)"
        using Cons.prems(1) by (rule no_timeout_dict_set) (simp add: error_entry_def)
      from Cons.IH [OF this rest] True Inl x show ?thesis by simp
    next
      case False
      have "no_timeout_entries (dict_set p (ExcObj e) res)"
        using Cons.prems(1) by (rule no_timeout_dict_set) simp
      with False Inl x show ?thesis by simp
    qed
  next
    case (Inr ro)
    show ?thesis
    proof (cases ro)
      case None
      have "no_timeout_entries (dict_set p NoneObj res)"
        using Cons.prems(1) by (rule no_timeout_dict_set) simp
      with None Inr x show ?thesis by simp
    next
      case (Some r)
      with Cons.prems(2) Inr x have "status r \<noteq> ''timeout''" by simp
      with Cons.prems(1) have "no_timeout_entries (dict_set p (Mapping r) res)"
        by (intro no_timeout_dict_set) simp_all
      from Cons.IH [OF this rest] Some Inr x show ?thesis by simp
    qed
  qed
qed

lemma fill_missing_no_timeout:
  "no_timeout_entries d \<Longrightarrow> no_timeout_entries (fill_missing e names d)"
proof (induction names arbitrary: d)
  case Nil
  then show ?case by simp
next
  case (Cons p names)
  have "no_timeout_entries (dict_set p (Mapping (error_entry (UnexpectedError e) None)) d)"
    using Cons.prems by (rule no_timeout_dict_set) (simp add: error_entry_def)
  with Cons show ?case by simp
qed

lemma mappings_Some_set:
  "mappings d = Some results \<Longrightarrow> (k, r) \<in> set results \<Longrightarrow> (k, Mapping r) \<in> set d"
proof (induction d arbitrary: results)
  case Nil
  then show ?case by simp
next
  case (Cons kv d)
  obtain k' v where kv: "kv = (k', v)" by (cases kv)
  from Cons.prems(1) kv obtain r' rest where v: "v = Mapping r'"
      and rest: "mappings d = Some rest" and res: "results = (k', r') # rest"
    by (cases v) auto
  from Cons.prems(2) res Cons.IH [OF rest] kv v show ?case by auto
qed

lemma reduce_gathered_no_timeout:
  assumes "\<forall>t r. completed t = Inr (Some r) \<longrightarrow> status r \<noteq> ''timeout''"
  shows "no_timeout_entries (fst (reduce_fanout ms st names tasks (Gathered completed)))"
proof -
  define xs where "xs = zip names (map completed (map snd tasks))"
  have xs: "\<forall>x\<in>set xs. \<forall>r. snd x = Inr (Some r) \<longrightarrow> status r \<noteq> ''timeout''"
    using assms unfolding xs_def by (auto dest!: set_zip_rightD)
  have "no_timeout_entries []" by (simp add: no_timeout_entries_def)
  from process_completed_no_timeout [OF this xs, of ms "[]"]
  have pc: "no_timeout_entries (fst (snd (process_completed ms xs [] [])))" .
  obtain eo res offs where p: "process_completed ms xs [] [] = (eo, res, offs)"
    by (metis prod_cases3)
  with pc have res: "no_timeout_entries res" by simp
  have "reduce_fanout ms st names tasks (Gathered completed)
      = (case process_completed ms xs [] [] of
           (None, res, offs) \<Rightarrow> (res, offs, [])
         | (Some e, res, offs) \<Rightarrow> (fill_missing e names res, offs, []))"
    unfolding xs_def by (simp add: reduce_fanout_def)
  with res show ?thesis
    by (cases eo) (simp_all add: p fill_missing_no_timeout)
qed

lemma search_all_unfold:
  assumes hotels: "crit_hotel_names crit = Some hs" "hs \<noteq> []"
    and names: "names = providers_to_search (map fst (adapters self)) crit"
    and st: "search_timeout = (case crit_search_timeout crit of None \<Rightarrow> 10 | Some t \<Rightarrow> t)"
    and wait: "wait_for_gather (map snd (provider_tasks names)) search_timeout w = (outcome, w')"
  shows "fst (search_all rt wait_for_gather self crit w)
           = (case reduce_fanout (elapsed_ms rt (time_time rt w) w') search_timeout names
                     (provider_tasks names) outcome of
                (res, offs, canc) \<Rightarrow>
                  summarize (elapsed_ms rt (time_time rt w) w') hs search_timeout res offs)"
  using hotels wait
  by (simp add: search_all_def Let_def names [symmetric] st [symmetric] split: prod.splits)

lemma search_all_timeout_entry:
  assumes names: "names = providers_to_search (map fst (adapters self)) crit"
    and st: "search_timeout = (case crit_search_timeout crit of None \<Rightarrow> 10 | Some t \<Rightarrow> t)"
    and wait: "wait_for_gather (map snd (provider_tasks names)) search_timeout w = (outcome, w')"
    and clean: "units_never_report_timeout outcome"
    and ret: "fst (search_all rt wait_for_gather self crit w) = Inr agg"
    and entry: "(q, out) \<in> set (providers agg)" "status out = ''timeout''"
  shows "\<exists>snapshot t. outcome = DeadlineElapsed snapshot \<and> t < length names \<and> names ! t = q
           \<and> (q, t) \<in> set (provider_tasks names)
           \<and> (snapshot t = Running \<or> snapshot t = Done (Inl CancelledError))"
proof (cases "\<exists>hs. crit_hotel_names crit = Some hs \<and> hs \<noteq> []")
  case False
  then have "crit_hotel_names crit = None \<or> crit_hotel_names crit = Some []"
    by (cases "crit_hotel_names crit") auto
  from search_all_no_hotel_names_aux [OF this, of rt wait_for_gather self w] ret entry(1)
  show ?thesis by simp
next
  case True
  then obtain hs where hotels: "crit_hotel_names crit = Some hs" "hs \<noteq> []" by blast
  define ms where "ms = elapsed_ms rt (time_time rt w) w'"
  define tasks where "tasks = provider_tasks names"
  obtain res offs canc where
    red: "reduce_fanout ms search_timeout names tasks outcome = (res, offs, canc)"
    by (metis prod_cases3)
  from search_all_unfold
         [where wait_for_gather = wait_for_gather and w = w and outcome = outcome
            and w' = w' and rt = rt, OF hotels names st wait] ret red
  have "summarize ms hs search_timeout res offs = Inr agg"
    by (simp add: ms_def tasks_def)
  then have m: "mappings res = Some (providers agg)"
    by (auto simp: summarize_def split: option.splits)
  from mappings_Some_set [OF m entry(1)] have mem: "(q, Mapping out) \<in> set res" .
  show ?thesis
  proof (cases outcome)
    case (Gathered completed)
    with clean have "\<forall>t r. completed t = Inr (Some r) \<longrightarrow> status r \<noteq> ''timeout''"
      by (simp add: units_never_report_timeout_def)
    from reduce_gathered_no_timeout [OF this, of ms search_timeout names tasks] red Gathered
    have "no_timeout_entries res" by simp
    with mem entry(2) show ?thesis by (auto simp: no_timeout_entries_def)
  next
    case (DeadlineElapsed snapshot)
    let ?g = "\<lambda>x. partial_entry search_timeout (snapshot (snd x))"
    have "distinct (map fst tasks)" by (simp add: tasks_def provider_tasks_keys(1))
    from fold_dict_set_new [OF this, of "[]" "\<lambda>x. Mapping (?g x)"] red DeadlineElapsed
    have "res = map (\<lambda>x. (fst x, Mapping (?g x))) tasks"
      by (simp add: reduce_deadline)
    with mem obtain t where t: "(q, t) \<in> set tasks"
        "out = partial_entry search_timeout (snapshot t)"
      by auto
    from t(2) entry(2) have "in_flight (snapshot t)
        \<or> (\<exists>r. snapshot t = Done (Inr (Some r)) \<and> status r = ''timeout'')"
      by (simp add: partial_entry_timeout)
    moreover from clean DeadlineElapsed
    have "\<forall>r. snapshot t = Done (Inr (Some r)) \<longrightarrow> status r \<noteq> ''timeout''"
      by (simp add: units_never_report_timeout_def)
    ultimately have "in_flight (snapshot t)" by blast
    then have "snapshot t = Running \<or> snapshot t = Done (Inl CancelledError)"
      by (cases "snapshot t" rule: in_flight.cases) simp_all
    with t(1) provider_tasks_member [of q t names] DeadlineElapsed show ?thesis
      by (auto simp: tasks_def)
  qed
qed

lemma run_deadline:
  "fst (search_all rt_example (wait_deadline [''rate_hawk'', ''tbo'', ''goglobal'']) up_three
          crit_example 1000)
   = Inr \<lparr> providers = [(''rate_hawk'', timeout_entry CancelledDuringTimeout None),
                         (''tbo'', outcome_tbo),
                         (''goglobal'', timeout_entry (TimedOutAfter 10) (Some 10000))],
           summary = \<lparr> total_offers = 1, successful_providers = 1, error_providers = Some 0,
                       timeout_providers = Some 2, total_processing_time_ms = 10000,
                       hotel_count = 1, hotels_searched = Some [''Banyan Tree Krabi''],
                       search_timeout_used = Some 10 \<rparr> \<rparr>"
  by (simp add: search_all_def Let_def crit_example_def up_three_def up_example_def
        providers_to_search_def provider_tasks_def wait_deadline_def unit_state_def
        reduce_fanout_def summarize_def count_status_def outcome_tbo_def timeout_entry_def
        rt_example_def elapsed_ms_def py_int_def)

lemma run_answering:
  "fst (search_single rt_example Config svc_plain up_example ''tbo'' crit_example 1000)
   = Inr (Some \<lparr> status = ''success'', provider = Some ''tbo'', error = None,
                  offers = [PyDict [(''room_name'', PyStr ''Double'')]], offer_count = Some 1,
                  processing_time_ms = Some 1000, attempts = Some 1,
                  circuit_breaker_state = Some ''closed'' \<rparr>)"
  by (simp add: search_single_def up_example_def rt_example_def Config_def svc_plain_def
        adapter_answering_def crit_example_def cb_fresh_def cb_two_failures_def state_def
        update_state_def numeral_3_eq_3 attempt_body_def call_def on_success_def elapsed_ms_def
        py_int_def breaker_state_value_def Let_def post_process_def filter_meal_types_def
        filter_room_category_def)

lemma run_cancelled:
  "search_single rt_example Config svc_plain up_cancelled ''hotelbeds'' crit_example 1000
   = (Inl CancelledError,
      up_cancelled\<lparr>circuit_breakers := (circuit_breakers up_cancelled)
                                         (''hotelbeds'' := Some cb_fresh)\<rparr>,
      1010, [Attempted (Some CancelledError)])"
  by (simp add: search_single_def up_cancelled_def rt_example_def Config_def svc_plain_def
        adapter_cancelled_def crit_example_def cb_fresh_def state_def update_state_def
        numeral_3_eq_3 attempt_body_def call_def Let_def)

text \<open>
  Claim C10, as stated, fails for a unit that is cancelled: with the retry settings of
  app/config.py, a loaded supplier \<open>hotelbeds\<close> with a fresh breaker, and a
  \<^verbatim>\<open>CancelledError\<close> delivered while the unit awaits the supplier's search (which is what
  cancelling a task does), \<^verbatim>\<open>search_single\<close> returns no mapping: the \<^verbatim>\<open>CancelledError\<close>
  leaves it, after one attempt, no handler having caught it.
\<close>

theorem search_single_cancelled_counterexample:
  "MAX_RETRIES Config = 3
   \<and> map_of (adapters up_cancelled) ''hotelbeds'' = Some adapter_cancelled
   \<and> circuit_breakers up_cancelled ''hotelbeds'' = Some cb_fresh
   \<and> search adapter_cancelled crit_example 1000 = (Inl CancelledError, 1010)
   \<and> search_single rt_example Config svc_plain up_cancelled ''hotelbeds'' crit_example 1000
       = (Inl CancelledError,
          up_cancelled\<lparr>circuit_breakers := (circuit_breakers up_cancelled)
                                             (''hotelbeds'' := Some cb_fresh)\<rparr>,
          1010, [Attempted (Some CancelledError)])"
  by (simp add: run_cancelled)
     (simp add: Config_def up_cancelled_def adapter_cancelled_def)

text \<open>
  Claim C10, amended. With \<open>MAX_RETRIES\<close> positive, as configured, \<^verbatim>\<open>search_single\<close> lets
  no \<^verbatim>\<open>Exception\<close> out, for every supplier name, criteria, adapter, breaker and meal-type
  service: either it returns a mapping whose status is \<open>success\<close> or \<open>error\<close>, never
  \<open>timeout\<close> and never \<^verbatim>\<open>None\<close>, or the unit was cancelled and the \<^verbatim>\<open>CancelledError\<close>
  leaves it. For an unknown supplier it returns an \<open>error\<close> mapping at once, touching
  nothing. And in a result of \<^verbatim>\<open>search_all\<close> whose units never hand back the status
  \<open>timeout\<close>, an entry has the status \<open>timeout\<close> only when the deadline of the fan-out
  elapsed, for a unit created for the entry's supplier and stored in \<^verbatim>\<open>provider_tasks\<close>
  whose task was then still running or cancelled.
\<close>

theorem search_single_never_times_out:
  assumes retries: "0 < MAX_RETRIES cfg"
  shows "((\<exists>out. fst (search_single rt cfg svc self p crit w) = Inr (Some out)
                \<and> (status out = ''success'' \<or> status out = ''error''))
          \<or> fst (search_single rt cfg svc self p crit w) = Inl CancelledError)
       \<and> (map_of (adapters self) p = None \<longrightarrow>
            (\<exists>out. search_single rt cfg svc self p crit w = (Inr (Some out), self, w, [])
                  \<and> status out = ''error''))
       \<and> (names = providers_to_search (map fst (adapters self)) crit
            \<and> search_timeout = (case crit_search_timeout crit of None \<Rightarrow> 10 | Some t \<Rightarrow> t)
            \<and> wait_for_gather (map snd (provider_tasks names)) search_timeout w = (outcome, w')
            \<and> units_never_report_timeout outcome
            \<and> fst (search_all rt wait_for_gather self crit w) = Inr agg
            \<and> (q, entry) \<in> set (providers agg) \<and> status entry = ''timeout''
          \<longrightarrow> (\<exists>snapshot t. outcome = DeadlineElapsed snapshot
                  \<and> t < length names \<and> names ! t = q \<and> (q, t) \<in> set (provider_tasks names)
                  \<and> (snapshot t = Running \<or> snapshot t = Done (Inl CancelledError))))"
proof (intro conjI impI)
  from search_single_result [OF retries, of rt svc self p crit w]
  show "(\<exists>out. fst (search_single rt cfg svc self p crit w) = Inr (Some out)
                \<and> (status out = ''success'' \<or> status out = ''error''))
          \<or> fst (search_single rt cfg svc self p crit w) = Inl CancelledError"
    by (auto simp: not_Exception split: sum.splits option.splits)
next
  assume "map_of (adapters self) p = None"
  then show "\<exists>out. search_single rt cfg svc self p crit w = (Inr (Some out), self, w, [])
      \<and> status out = ''error''"
    by (simp add: search_single_unknown)
next
  assume a: "names = providers_to_search (map fst (adapters self)) crit
            \<and> search_timeout = (case crit_search_timeout crit of None \<Rightarrow> 10 | Some t \<Rightarrow> t)
            \<and> wait_for_gather (map snd (provider_tasks names)) search_timeout w = (outcome, w')
            \<and> units_never_report_timeout outcome
            \<and> fst (search_all rt wait_for_gather self crit w) = Inr agg
            \<and> (q, entry) \<in> set (providers agg) \<and> status entry = ''timeout''"
  then have names: "names = providers_to_search (map fst (adapters self)) crit"
    and st: "search_timeout = (case crit_search_timeout crit of None \<Rightarrow> 10 | Some t \<Rightarrow> t)"
    and wait: "wait_for_gather (map snd (provider_tasks names)) search_timeout w = (outcome, w')"
    and clean: "units_never_report_timeout outcome"
    and ret: "fst (search_all rt wait_for_gather self crit w) = Inr agg"
    and entry: "(q, entry) \<in> set (providers agg)" "status entry = ''timeout''"
    by blast+
  show "\<exists>snapshot t. outcome = DeadlineElapsed snapshot
          \<and> t < length names \<and> names ! t = q \<and> (q, t) \<in> set (provider_tasks names)
          \<and> (snapshot t = Running \<or> snapshot t = Done (Inl CancelledError))"
    by (rule search_all_timeout_entry
               [where wait_for_gather = wait_for_gather and w = w and rt = rt,
                OF names st wait clean ret entry])
qed

theorem search_single_never_times_out_witness:
  "0 < MAX_RETRIES Config
   \<and> (\<exists>out. fst (search_single rt_example Config svc_plain up_example ''rate_hawk''
                   crit_example 1000) = Inr (Some out) \<and> status out = ''error'')
   \<and> (\<exists>out. fst (search_single rt_example Config svc_plain up_example ''tbo''
                   crit_example 1000) = Inr (Some out) \<and> status out = ''success'')
   \<and> fst (search_single rt_example Config svc_plain up_cancelled ''hotelbeds'' crit_example 1000)
       = Inl CancelledError
   \<and> map_of (adapters up_three) ''expedia'' = None
   \<and> (\<exists>out. search_single rt_example Config svc_plain up_three ''expedia'' crit_example 1000
               = (Inr (Some out), up_three, 1000, []) \<and> status out = ''error'')
   \<and> wait_deadline [''rate_hawk'', ''tbo'', ''goglobal'']
        (map snd (provider_tasks [''rate_hawk'', ''tbo'', ''goglobal''])) 10 1000
       = (DeadlineElapsed (\<lambda>i. unit_state ([''rate_hawk'', ''tbo'', ''goglobal''] ! i)), 1010)
   \<and> units_never_report_timeout
       (DeadlineElapsed (\<lambda>i. unit_state ([''rate_hawk'', ''tbo'', ''goglobal''] ! i)))
   \<and> status (timeout_entry (TimedOutAfter 10) (Some 10000)) = ''timeout''
   \<and> (''goglobal'', timeout_entry (TimedOutAfter 10) (Some 10000))
       \<in> set (providers (projr (fst (search_all rt_example
                 (wait_deadline [''rate_hawk'', ''tbo'', ''goglobal'']) up_three crit_example
                 1000))))
   \<and> (''goglobal'', 2) \<in> set (provider_tasks [''rate_hawk'', ''tbo'', ''goglobal''])
   \<and> unit_state ([''rate_hawk'', ''tbo'', ''goglobal''] ! 2) = Running"
proof -
  let ?names = "[''rate_hawk'', ''tbo'', ''goglobal'']"
  let ?entry = "timeout_entry (TimedOutAfter 10) (Some 10000)"
  let ?snap = "\<lambda>i. unit_state (?names ! i)"
  obtain agg where agg: "fst (search_all rt_example (wait_deadline ?names) up_three crit_example
      1000) = Inr agg" "(''goglobal'', ?entry) \<in> set (providers agg)"
    using run_deadline by simp
  have c: "0 < MAX_RETRIES Config" by (simp add: Config_def)
  have n: "?names = providers_to_search (map fst (adapters up_three)) crit_example"
    by (simp add: names_up_three)
  have t: "(10::real) = (case crit_search_timeout crit_example of None \<Rightarrow> 10 | Some t \<Rightarrow> t)"
    by (simp add: crit_example_def)
  have e: "wait_deadline ?names (map snd (provider_tasks ?names)) 10 1000
             = (DeadlineElapsed ?snap, 1010)"
    by (simp add: wait_deadline_def)
  have u: "units_never_report_timeout (DeadlineElapsed ?snap)"
    by (simp add: units_never_report_timeout_def unit_state_def outcome_tbo_def)
  have s: "status ?entry = ''timeout''" by (simp add: timeout_entry_def)
  have x: "map_of (adapters up_three) ''expedia'' = None"
    by (simp add: up_three_def up_example_def)
  have pt: "provider_tasks ?names = [(''rate_hawk'', 0), (''tbo'', 1), (''goglobal'', 2)]"
    by (simp add: provider_tasks_def)
  have g: "unit_state (?names ! 2) = Running" by (simp add: unit_state_def)
  note main = search_single_never_times_out
                [OF c, where rt = rt_example and svc = svc_plain and crit = crit_example
                   and w = "1000::real" and names = ?names and search_timeout = 10
                   and wait_for_gather = "wait_deadline ?names"
                   and outcome = "DeadlineElapsed ?snap" and w' = 1010 and agg = agg
                   and q = "''goglobal''" and entry = ?entry]
  from main [where self = up_three and p = "''expedia''"] x n t e u agg s
  have 1: "\<exists>out. search_single rt_example Config svc_plain up_three ''expedia'' crit_example 1000
               = (Inr (Some out), up_three, 1000, []) \<and> status out = ''error''"
    and 2: "\<exists>t. t < length ?names \<and> ?names ! t = ''goglobal''
              \<and> (''goglobal'', t) \<in> set (provider_tasks ?names)
              \<and> (unit_state (?names ! t) = Running
                  \<or> unit_state (?names ! t) = Done (Inl CancelledError))"
    by auto
  from 2 have stored: "(''goglobal'', 2) \<in> set (provider_tasks ?names)"
    by (simp add: pt)
  from agg have 3: "(''goglobal'', ?entry)
      \<in> set (providers (projr (fst (search_all rt_example (wait_deadline ?names) up_three
                                       crit_example 1000))))"
    by simp
  have 4: "\<exists>out. fst (search_single rt_example Config svc_plain up_example ''rate_hawk''
                   crit_example 1000) = Inr (Some out) \<and> status out = ''error''"
    by (simp add: run_timing_out)
  have 5: "\<exists>out. fst (search_single rt_example Config svc_plain up_example ''tbo''
                   crit_example 1000) = Inr (Some out) \<and> status out = ''success''"
    by (simp add: run_answering)
  have 6: "fst (search_single rt_example Config svc_plain up_cancelled ''hotelbeds'' crit_example
                  1000) = Inl CancelledError"
    by (simp add: run_cancelled)
  from c 1 stored 3 4 5 6 x e u s g show ?thesis by blast
qed

section \<open>The adapters' \<^verbatim>\<open>normalize\<close> (app/services/providers)\<close>

subsection \<open>Python operations on decoded JSON\<close>

text \<open>
  A response is decoded JSON: \<^verbatim>\<open>None\<close>, booleans, numbers, strings, lists, and dicts with
  string keys, whose association lists have no repeated key.
\<close>

fun py_truthy :: "pyval \<Rightarrow> bool" where
  "py_truthy PyNone = False"
| "py_truthy (PyBool b) = b"
| "py_truthy (PyInt i) = (i \<noteq> 0)"
| "py_truthy (PyFloat r) = (r \<noteq> 0)"
| "py_truthy (PyStr s) = (s \<noteq> [])"
| "py_truthy (PyList xs) = (xs \<noteq> [])"
| "py_truthy (PyDict kvs) = (kvs \<noteq> [])"

fun isinstance_dict :: "pyval \<Rightarrow> bool" where
  "isinstance_dict (PyDict _) = True"
| "isinstance_dict _ = False"

fun isinstance_list :: "pyval \<Rightarrow> bool" where
  "isinstance_list (PyList _) = True"
| "isinstance_list _ = False"

text \<open>\<^verbatim>\<open>len(x)\<close>, and the elements a \<^verbatim>\<open>for\<close> loop over \<^verbatim>\<open>x\<close> visits.\<close>

fun py_len :: "pyval \<Rightarrow> exn + nat" where
  "py_len (PyStr s) = Inr (length s)"
| "py_len (PyList xs) = Inr (length xs)"
| "py_len (PyDict kvs) = Inr (length kvs)"
| "py_len _ = Inl (TypeError ''object has no len()'')"

fun py_iter :: "pyval \<Rightarrow> exn + pyval list" where
  "py_iter (PyStr s) = Inr (map (\<lambda>c. PyStr [c]) s)"
| "py_iter (PyList xs) = Inr xs"
| "py_iter (PyDict kvs) = Inr (map (\<lambda>kv. PyStr (fst kv)) kvs)"
| "py_iter _ = Inl (TypeError ''object is not iterable'')"

fun py_items :: "pyval \<Rightarrow> exn + (string \<times> pyval) list" where
  "py_items (PyDict kvs) = Inr kvs"
| "py_items _ = Inl (AttributeError ''items'')"

text \<open>\<^verbatim>\<open>d.get(k, dflt)\<close> on a value known to be a \<^verbatim>\<open>dict\<close>.\<close>

definition dict_get :: "(string \<times> pyval) list \<Rightarrow> string \<Rightarrow> pyval \<Rightarrow> pyval" where
  "dict_get kvs k dflt = (case map_of kvs k of None \<Rightarrow> dflt | Some v \<Rightarrow> v)"

subsection \<open>Rate Hawk\<close>

text \<open>
  The checks of one rate inside the inner \<^verbatim>\<open>try\<close>, in the order of the source. The
  result is \<open>Inr None\<close> for a rate a check skips, \<open>Inr (Some offer)\<close> for the offer
  built, and \<open>Inl e\<close> when an exception is raised on the way. \<open>build\<close> stands for the
  construction of the offer from a rate that passed the checks (the extraction of
  price, currency, cancellation date, features and amenities): it is a parameter, and
  may raise.
\<close>

definition essential_fields :: "string list" where
  "essential_fields = [''match_hash'', ''room_name'', ''payment_options'', ''daily_prices'']"

definition rate_hawk_rate ::
  "(pyval \<Rightarrow> pyval \<Rightarrow> pyval \<Rightarrow> exn + pyval) \<Rightarrow> pyval \<Rightarrow> pyval \<Rightarrow> pyval \<Rightarrow> exn + pyval option" where
  "rate_hawk_rate build hotel_name hotel rate =
     (case rate of
        PyDict kvs \<Rightarrow>
          if kvs = [] then Inr None
          else if length kvs \<le> 1 \<and> ''legal_info'' \<in> fst ` set kvs then Inr None
          else if length kvs \<le> 2
                  \<and> (\<forall>key\<in>fst ` set kvs. key \<in> set [''legal_info'', ''id'', ''rate_id''])
               then Inr None
          else if filter (\<lambda>field. py_truthy (dict_get kvs field PyNone)) essential_fields = []
               then Inr None
          else if \<not> py_truthy (dict_get kvs ''match_hash'' PyNone) then Inr None
          else if \<not> py_truthy (dict_get kvs ''room_name'' PyNone) then Inr None
          else
            (let payment_options = dict_get kvs ''payment_options'' (PyDict [])
             in case py_get payment_options ''payment_types'' (PyList []) of
                  Inl e \<Rightarrow> Inl e
                | Inr payment_types \<Rightarrow>
                    if \<not> py_truthy payment_options \<or> \<not> isinstance_dict payment_options
                    then Inr None
                    else if \<not> py_truthy payment_types then Inr None
                    else
                      (case py_len payment_types of
                         Inl e \<Rightarrow> Inl e
                       | Inr n \<Rightarrow>
                           if n = 0 then Inr None
                           else
                             (let daily_prices = dict_get kvs ''daily_prices'' (PyList [])
                              in if \<not> py_truthy daily_prices then Inr None
                                 else
                                   (case py_len daily_prices of
                                      Inl e \<Rightarrow> Inl e
                                    | Inr m \<Rightarrow>
                                        if m = 0 then Inr None
                                        else map_sum id Some (build hotel_name hotel rate)))))
      | _ \<Rightarrow> Inl (AttributeError ''get''))"

text \<open>
  The loop over the rates of one hotel. The debug line before the inner \<^verbatim>\<open>try\<close> calls
  \<^verbatim>\<open>rate.keys()\<close>, so a rate that is no \<^verbatim>\<open>dict\<close> raises out of the loop; inside the
  \<^verbatim>\<open>try\<close>, a skipped rate and a rate that raises both add one to \<^verbatim>\<open>skipped_rates\<close>.
\<close>

fun rate_hawk_rates ::
  "(pyval \<Rightarrow> pyval \<Rightarrow> pyval \<Rightarrow> exn + pyval) \<Rightarrow> pyval \<Rightarrow> pyval \<Rightarrow> pyval list
     \<Rightarrow> pyval list \<Rightarrow> nat \<Rightarrow> exn option \<times> pyval list \<times> nat" where
  "rate_hawk_rates build hotel_name hotel [] offer_list skipped_rates =
     (None, offer_list, skipped_rates)"
| "rate_hawk_rates build hotel_name hotel (rate # rest) offer_list skipped_rates =
     (if \<not> isinstance_dict rate then (Some (AttributeError ''keys''), offer_list, skipped_rates)
      else
        (case rate_hawk_rate build hotel_name hotel rate of
           Inr (Some offer) \<Rightarrow>
             rate_hawk_rates build hotel_name hotel rest (offer_list @ [offer]) skipped_rates
         | Inr None \<Rightarrow>
             rate_hawk_rates build hotel_name hotel rest offer_list (Suc skipped_rates)
         | Inl e \<Rightarrow>
             rate_hawk_rates build hotel_name hotel rest offer_list (Suc skipped_rates)))"

text \<open>
  The name of a hotel: the first entry of \<^verbatim>\<open>hotel_id_to_name_map\<close> whose key is the
  hotel's \<open>id\<close> or \<open>hid\<close> as a string, else the \<open>hid\<close> or \<open>id\<close> itself. \<open>py_str\<close> is
  Python's \<^verbatim>\<open>str\<close>.
\<close>

definition rate_hawk_hotel_name ::
  "(pyval \<Rightarrow> string) \<Rightarrow> (string \<times> pyval) list \<Rightarrow> pyval \<Rightarrow> pyval \<Rightarrow> pyval" where
  "rate_hawk_hotel_name py_str name_map hotel_id hotel_hid =
     (let found = (case find (\<lambda>item. fst item = py_str hotel_id \<or> fst item = py_str hotel_hid)
                          name_map of
                     None \<Rightarrow> PyNone
                   | Some item \<Rightarrow> snd item)
      in if \<not> py_truthy found
         then (if py_truthy hotel_hid then PyStr (py_str hotel_hid) else PyStr (py_str hotel_id))
         else found)"

text \<open>
  The loop over the hotels. A hotel that is no \<^verbatim>\<open>dict\<close>, a name map that is no
  \<^verbatim>\<open>dict\<close> and rates without a length raise out of the loop; a hotel without \<open>id\<close> is
  passed over.
\<close>

fun rate_hawk_hotels ::
  "(pyval \<Rightarrow> pyval \<Rightarrow> pyval \<Rightarrow> exn + pyval) \<Rightarrow> (pyval \<Rightarrow> string) \<Rightarrow> (string \<times> pyval) list
     \<Rightarrow> pyval list \<Rightarrow> pyval list \<Rightarrow> nat \<Rightarrow> exn option \<times> pyval list \<times> nat" where
  "rate_hawk_hotels build py_str raw_kvs [] offer_list skipped_rates =
     (None, offer_list, skipped_rates)"
| "rate_hawk_hotels build py_str raw_kvs (hotel # rest) offer_list skipped_rates =
     (case hotel of
        PyDict hkvs \<Rightarrow>
          (let hotel_id = dict_get hkvs ''id'' PyNone;
               hotel_hid = dict_get hkvs ''hid'' hotel_id
           in case py_items (dict_get raw_kvs ''hotel_id_to_name_map'' (PyDict [])) of
                Inl e \<Rightarrow> (Some e, offer_list, skipped_rates)
              | Inr name_map \<Rightarrow>
                  (let hotel_name = rate_hawk_hotel_name py_str name_map hotel_id hotel_hid
                   in if \<not> py_truthy hotel_id
                      then rate_hawk_hotels build py_str raw_kvs rest offer_list skipped_rates
                      else
                        (let rates = dict_get hkvs ''rates'' (PyList [])
                         in case py_len rates of
                              Inl e \<Rightarrow> (Some e, offer_list, skipped_rates)
                            | Inr n \<Rightarrow>
                                (case py_iter rates of
                                   Inl e \<Rightarrow> (Some e, offer_list, skipped_rates)
                                 | Inr rs \<Rightarrow>
                                     (case rate_hawk_rates build hotel_name hotel rs
                                             offer_list skipped_rates of
                                        (Some e, offer_list', skipped') \<Rightarrow>
                                          (Some e, offer_list', skipped')
                                      | (None, offer_list', skipped') \<Rightarrow>
                                          rate_hawk_hotels build py_str raw_kvs rest
                                            offer_list' skipped')))))
      | _ \<Rightarrow> (Some (AttributeError ''get''), offer_list, skipped_rates))"

text \<open>
  The outer \<^verbatim>\<open>try\<close> block: what was raised, if anything, the offers collected up to
  then, and \<^verbatim>\<open>skipped_rates\<close>.
\<close>

definition rate_hawk_normalize_body ::
  "(pyval \<Rightarrow> pyval \<Rightarrow> pyval \<Rightarrow> exn + pyval) \<Rightarrow> (pyval \<Rightarrow> string) \<Rightarrow> pyval
     \<Rightarrow> exn option \<times> pyval list \<times> nat" where
  "rate_hawk_normalize_body build py_str raw =
     (if \<not> py_truthy raw then (None, [], 0)
      else
        (case py_get raw ''data'' PyNone of
           Inl e \<Rightarrow> (Some e, [], 0)
         | Inr data \<Rightarrow>
             if \<not> py_truthy data then (None, [], 0)
             else
               (case py_get data ''hotels'' (PyList []) of
                  Inl e \<Rightarrow> (Some e, [], 0)
                | Inr hotels \<Rightarrow>
                    (case (raw, hotels) of
                       (PyDict raw_kvs, PyList hs) \<Rightarrow>
                         if hs = [] then (None, [], 0)
                         else rate_hawk_hotels build py_str raw_kvs hs [] 0
                     | _ \<Rightarrow> (None, [], 0)))))"

text \<open>
  \<^verbatim>\<open>RateHawkProvider.normalize\<close>: the handler of the outer \<^verbatim>\<open>try\<close> logs the exception,
  and the function returns the offers collected.
\<close>

definition rate_hawk_normalize ::
  "(pyval \<Rightarrow> pyval \<Rightarrow> pyval \<Rightarrow> exn + pyval) \<Rightarrow> (pyval \<Rightarrow> string) \<Rightarrow> pyval \<Rightarrow> criteria
     \<Rightarrow> exn + pyval list" where
  "rate_hawk_normalize build py_str raw crit =
     (case rate_hawk_normalize_body build py_str raw of
        (raised, offer_list, skipped_rates) \<Rightarrow> Inr offer_list)"

text \<open>
  The entries of a response, as \<^verbatim>\<open>search\<close> counts them for its log: the rates of the
  hotels under \<open>data.hotels\<close>.
\<close>

definition rates_of :: "pyval \<Rightarrow> pyval list" where
  "rates_of hotel =
     (case hotel of
        PyDict hkvs \<Rightarrow> (case dict_get hkvs ''rates'' (PyList []) of PyList rs \<Rightarrow> rs | _ \<Rightarrow> [])
      | _ \<Rightarrow> [])"

definition hotels_of :: "pyval \<Rightarrow> pyval list" where
  "hotels_of raw =
     (case raw of
        PyDict raw_kvs \<Rightarrow>
          (case dict_get raw_kvs ''data'' PyNone of
             PyDict dkvs \<Rightarrow> (case dict_get dkvs ''hotels'' (PyList []) of PyList hs \<Rightarrow> hs | _ \<Rightarrow> [])
           | _ \<Rightarrow> [])
      | _ \<Rightarrow> [])"

definition rate_hawk_entries :: "pyval \<Rightarrow> nat" where
  "rate_hawk_entries raw = sum_list (map (\<lambda>hotel. length (rates_of hotel)) (hotels_of raw))"

text \<open>A rate is well formed when it is a \<^verbatim>\<open>dict\<close> that passes the checks and yields an offer.\<close>

definition rate_hawk_well_formed ::
  "(pyval \<Rightarrow> pyval \<Rightarrow> pyval \<Rightarrow> exn + pyval) \<Rightarrow> pyval \<Rightarrow> pyval \<Rightarrow> bool" where
  "rate_hawk_well_formed build hotel rate =
     (\<exists>hotel_name offer. rate_hawk_rate build hotel_name hotel rate = Inr (Some offer))"

subsection \<open>GoGlobal\<close>

text \<open>The first failure in a sequence of steps ends it, as an exception does.\<close>

fun seq :: "(exn + 'a list) list \<Rightarrow> exn + 'a list" where
  "seq [] = Inr []"
| "seq (step # steps) =
     (case step of
        Inl e \<Rightarrow> Inl e
      | Inr xs \<Rightarrow> (case seq steps of Inl e \<Rightarrow> Inl e | Inr ys \<Rightarrow> Inr (xs @ ys)))"

text \<open>\<^verbatim>\<open>if k in allowed_fields: standardized_offer[k] = v\<close>.\<close>

definition field :: "string list \<Rightarrow> string \<Rightarrow> exn + pyval \<Rightarrow> exn + (string \<times> pyval) list" where
  "field allowed_fields k v =
     (if k \<in> set allowed_fields then map_sum id (\<lambda>x. [(k, x)]) v else Inr [])"

text \<open>\<^verbatim>\<open>x[0]\<close> on a value that is true.\<close>

fun py_first :: "pyval \<Rightarrow> exn + pyval" where
  "py_first (PyList (x # xs)) = Inr x"
| "py_first (PyStr (c # cs)) = Inr (PyStr [c])"
| "py_first (PyList []) = Inl (OtherException ''IndexError'')"
| "py_first (PyStr []) = Inl (OtherException ''IndexError'')"
| "py_first (PyDict kvs) = Inl (OtherException ''KeyError'')"
| "py_first _ = Inl (TypeError ''object is not subscriptable'')"

fun py_strip :: "pyval \<Rightarrow> exn + pyval" where
  "py_strip (PyStr s) = Inr (PyStr (strip s))"
| "py_strip _ = Inl (AttributeError ''strip'')"

definition ALLOWED_FIELDS :: "string list" where
  "ALLOWED_FIELDS = [''provider'', ''supplier_hotel_id'', ''hotel_id'', ''hotel_name'',
     ''supplier_room_code'', ''room_name'', ''room_category'', ''room_mapping_id'',
     ''meal_plan'', ''total_price'', ''currency'', ''room_features'', ''amenities'',
     ''free_cancellation_until'']"

text \<open>The body of the \<^verbatim>\<open>try\<close> block that builds the offer of one entry of \<open>Offers\<close>.\<close>

definition goglobal_offer ::
  "string list \<Rightarrow> (pyval \<Rightarrow> string) \<Rightarrow> string \<Rightarrow> pyval \<Rightarrow> pyval \<Rightarrow> exn + pyval" where
  "goglobal_offer allowed_fields py_str hotel_id hotel_name offer =
     map_sum id PyDict
       (seq
          [field allowed_fields ''room_name''
             (case py_get offer ''Rooms'' (PyList []) of
                Inl e \<Rightarrow> Inl e
              | Inr room_names \<Rightarrow>
                  if py_truthy room_names then py_first room_names
                  else py_get offer ''RoomName'' (PyStr ''Sztuczna nazwa pokoju'')),
           field allowed_fields ''room_features''
             (case py_get offer ''Special'' (PyStr []) of
                Inl e \<Rightarrow> Inl e
              | Inr special \<Rightarrow>
                  if py_truthy special
                  then map_sum id (\<lambda>s. PyList [s]) (py_strip special)
                  else Inr (PyList [])),
           field allowed_fields ''supplier_hotel_id'' (Inr (PyStr hotel_id)),
           field allowed_fields ''hotel_name'' (Inr hotel_name),
           field allowed_fields ''supplier_room_code'' (py_get offer ''HotelSearchCode'' PyNone),
           field allowed_fields ''room_category'' (Inr PyNone),
           field allowed_fields ''room_mapping_id'' (Inr PyNone),
           field allowed_fields ''meal_plan'' (py_get offer ''RoomBasis'' (PyStr ''room_only'')),
           field allowed_fields ''total_price''
             (map_sum id (\<lambda>v. PyStr (py_str v)) (py_get offer ''TotalPrice'' (PyStr ''0''))),
           field allowed_fields ''currency'' (py_get offer ''Currency'' (PyStr ''EUR'')),
           field allowed_fields ''amenities'' (Inr (PyList [])),
           field allowed_fields ''free_cancellation_until''
             (py_get offer ''CancellationDeadline'' PyNone),
           Inr [(''provider'', PyStr ''goglobal'')]])"

text \<open>The loop over \<open>Offers\<close>: an entry whose \<^verbatim>\<open>try\<close> block raises is passed over.\<close>

fun goglobal_offers ::
  "string list \<Rightarrow> (pyval \<Rightarrow> string) \<Rightarrow> string \<Rightarrow> pyval \<Rightarrow> pyval list \<Rightarrow> pyval list" where
  "goglobal_offers allowed_fields py_str hotel_id hotel_name [] = []"
| "goglobal_offers allowed_fields py_str hotel_id hotel_name (offer # rest) =
     (case goglobal_offer allowed_fields py_str hotel_id hotel_name offer of
        Inr standardized_offer \<Rightarrow>
          standardized_offer # goglobal_offers allowed_fields py_str hotel_id hotel_name rest
      | Inl e \<Rightarrow> goglobal_offers allowed_fields py_str hotel_id hotel_name rest)"

text \<open>
  \<^verbatim>\<open>_process_hotel_offers\<close>. Only the loop over the offers has a \<^verbatim>\<open>try\<close>: what the
  statements before it raise leaves the function. The criteria of the front end have
  no key \<open>hotel_name\<close>, so the fallback \<^verbatim>\<open>criteria.get("hotel_name", "")\<close> is the empty
  string.
\<close>

definition process_hotel_offers ::
  "string list \<Rightarrow> (pyval \<Rightarrow> string) \<Rightarrow> pyval \<Rightarrow> pyval \<Rightarrow> exn + pyval list" where
  "process_hotel_offers allowed_fields py_str hotel_name_to_id_map hotel =
     (case py_get hotel ''HotelCode'' (PyStr []) of
        Inl e \<Rightarrow> Inl e
      | Inr code \<Rightarrow>
          (let hotel_id = py_str code
           in case py_items hotel_name_to_id_map of
                Inl e \<Rightarrow> Inl e
              | Inr name_map \<Rightarrow>
                  (let found = (case find (\<lambda>item. fst item = hotel_id) name_map of
                                  None \<Rightarrow> PyStr []
                                | Some item \<Rightarrow> snd item)
                   in case (if \<not> py_truthy found then py_get hotel ''HotelName'' (PyStr [])
                            else Inr found) of
                        Inl e \<Rightarrow> Inl e
                      | Inr hotel_name \<Rightarrow>
                          (case py_get hotel ''Offers'' (PyList []) of
                             Inl e \<Rightarrow> Inl e
                           | Inr offers_value \<Rightarrow>
                               (case py_iter offers_value of
                                  Inl e \<Rightarrow> Inl e
                                | Inr entries \<Rightarrow>
                                    Inr (goglobal_offers allowed_fields py_str hotel_id
                                           hotel_name entries))))))"

fun goglobal_hotels ::
  "string list \<Rightarrow> (pyval \<Rightarrow> string) \<Rightarrow> pyval \<Rightarrow> pyval list \<Rightarrow> exn + pyval list" where
  "goglobal_hotels allowed_fields py_str hotel_name_to_id_map [] = Inr []"
| "goglobal_hotels allowed_fields py_str hotel_name_to_id_map (hotel # rest) =
     (case process_hotel_offers allowed_fields py_str hotel_name_to_id_map hotel of
        Inl e \<Rightarrow> Inl e
      | Inr hotel_offers \<Rightarrow>
          (case goglobal_hotels allowed_fields py_str hotel_name_to_id_map rest of
             Inl e \<Rightarrow> Inl e
           | Inr later_offers \<Rightarrow> Inr (hotel_offers @ later_offers)))"

text \<open>\<^verbatim>\<open>GoGlobalProvider.normalize\<close>: guards on the shape of the response, then the loop over the hotels, with no \<^verbatim>\<open>try\<close> around it.\<close>

definition goglobal_normalize ::
  "string list \<Rightarrow> (pyval \<Rightarrow> string) \<Rightarrow> pyval \<Rightarrow> criteria \<Rightarrow> exn + pyval list" where
  "goglobal_normalize allowed_fields py_str raw crit =
     (case raw of
        PyDict raw_kvs \<Rightarrow>
          if dict_get raw_kvs ''status'' PyNone \<noteq> PyStr ''success'' then Inr []
          else
            (case dict_get raw_kvs ''data'' PyNone of
               PyDict data_kvs \<Rightarrow>
                 if data_kvs = [] then Inr []
                 else
                   (let hotels = dict_get data_kvs ''Hotels'' (PyList [])
                    in if \<not> py_truthy hotels then Inr []
                       else
                         (case py_iter hotels of
                            Inl e \<Rightarrow> Inl e
                          | Inr hs \<Rightarrow>
                              goglobal_hotels allowed_fields py_str
                                (dict_get data_kvs ''hotel_name_to_id_map'' (PyDict [])) hs))
             | _ \<Rightarrow> Inr [])
      | _ \<Rightarrow> Inr [])"

subsection \<open>Properties of \<^verbatim>\<open>normalize\<close>\<close>

lemma rate_hawk_rates_count:
  "rate_hawk_rates build hn h rs acc sk = (e, acc', sk')
   \<Longrightarrow> length acc' \<le> length acc + length (filter (rate_hawk_well_formed build h) rs)
     \<and> (e = None \<longrightarrow> length acc' + sk' = length acc + sk + length rs)"
proof (induction rs arbitrary: acc sk)
  case Nil
  then show ?case by simp
next
  case (Cons r rs)
  show ?case
  proof (cases "isinstance_dict r")
    case False
    with Cons.prems show ?thesis by auto
  next
    case True
    show ?thesis
    proof (cases "rate_hawk_rate build hn h r")
      case (Inl x)
      with True Cons.prems
      have "rate_hawk_rates build hn h rs acc (Suc sk) = (e, acc', sk')" by simp
      from Cons.IH [OF this] show ?thesis by auto
    next
      case (Inr oo)
      show ?thesis
      proof (cases oo)
        case None
        with Inr True Cons.prems
        have "rate_hawk_rates build hn h rs acc (Suc sk) = (e, acc', sk')" by simp
        from Cons.IH [OF this] show ?thesis by auto
      next
        case (Some offer)
        with Inr have wf: "rate_hawk_well_formed build h r"
          unfolding rate_hawk_well_formed_def by blast
        from Some Inr True Cons.prems
        have "rate_hawk_rates build hn h rs (acc @ [offer]) sk = (e, acc', sk')" by simp
        from Cons.IH [OF this] wf show ?thesis by auto
      qed
    qed
  qed
qed

lemma not_well_formed_str: "\<not> rate_hawk_well_formed build h (PyStr s)"
  by (simp add: rate_hawk_well_formed_def rate_hawk_rate_def)

lemma iter_well_formed:
  "py_iter v = Inr rs
   \<Longrightarrow> filter (rate_hawk_well_formed build h) rs
       = filter (rate_hawk_well_formed build h) (case v of PyList xs \<Rightarrow> xs | _ \<Rightarrow> [])"
  by (cases v) (auto simp: filter_empty_conv not_well_formed_str)

definition good_rates :: "(pyval \<Rightarrow> pyval \<Rightarrow> pyval \<Rightarrow> exn + pyval) \<Rightarrow> pyval \<Rightarrow> nat" where
  "good_rates build h = length (filter (rate_hawk_well_formed build h) (rates_of h))"

lemma rate_hawk_hotels_count:
  "rate_hawk_hotels build py_str raw_kvs hs acc sk = (e, acc', sk')
   \<Longrightarrow> length acc' \<le> length acc + sum_list (map (good_rates build) hs)"
proof (induction hs arbitrary: acc sk)
  case Nil
  then show ?case by simp
next
  case (Cons h hs)
  show ?case
  proof (cases h)
    case (PyDict hkvs)
    define hid where "hid = dict_get hkvs ''id'' PyNone"
    define rates where "rates = dict_get hkvs ''rates'' (PyList [])"
    show ?thesis
    proof (cases "py_items (dict_get raw_kvs ''hotel_id_to_name_map'' (PyDict []))")
      case (Inl x)
      with PyDict Cons.prems show ?thesis by (simp add: Let_def)
    next
      case (Inr name_map)
      show ?thesis
      proof (cases "py_truthy hid")
        case False
        with Inr PyDict Cons.prems
        have "rate_hawk_hotels build py_str raw_kvs hs acc sk = (e, acc', sk')"
          by (simp add: Let_def hid_def)
        from Cons.IH [OF this] show ?thesis by simp
      next
        case True
        show ?thesis
        proof (cases "py_iter rates")
          case iterfail: (Inl x)
          with True Inr PyDict Cons.prems show ?thesis
            by (auto simp: Let_def hid_def rates_def split: sum.splits)
        next
          case iter: (Inr rs)
          then obtain n where len: "py_len rates = Inr n" by (cases rates) auto
          define hn where "hn = rate_hawk_hotel_name py_str name_map hid (dict_get hkvs ''hid'' hid)"
          obtain e1 acc1 sk1 where loop: "rate_hawk_rates build hn h rs acc sk = (e1, acc1, sk1)"
            by (metis prod_cases3)
          from iter_well_formed [OF iter, of build h]
          have "length (filter (rate_hawk_well_formed build h) rs) = good_rates build h"
            by (simp add: good_rates_def rates_of_def PyDict rates_def)
          with rate_hawk_rates_count [OF loop]
          have b1: "length acc1 \<le> length acc + good_rates build h" by simp
          show ?thesis
          proof (cases e1)
            case None
            with loop len iter True Inr PyDict Cons.prems
            have "rate_hawk_hotels build py_str raw_kvs hs acc1 sk1 = (e, acc', sk')"
              by (simp add: Let_def hid_def rates_def hn_def)
            from Cons.IH [OF this] b1 show ?thesis by simp
          next
            case (Some x)
            with loop len iter True Inr PyDict Cons.prems have "acc' = acc1"
              by (simp add: Let_def hid_def rates_def hn_def)
            with b1 show ?thesis by simp
          qed
        qed
      qed
    qed
  qed (use Cons.prems in auto)
qed

lemma sum_list_filter_bound:
  "sum_list (map (\<lambda>h. length (filter (P h) (f h))) hs) \<le> sum_list (map (\<lambda>h. length (f h)) hs)"
  by (induction hs) (simp_all add: add_mono)

lemma sum_list_filter_strict:
  "\<exists>h\<in>set hs. \<exists>r\<in>set (f h). \<not> P h r
   \<Longrightarrow> sum_list (map (\<lambda>h. length (filter (P h) (f h))) hs) < sum_list (map (\<lambda>h. length (f h)) hs)"
proof (induction hs)
  case Nil
  then show ?case by simp
next
  case (Cons h hs)
  have le: "length (filter (P h) (f h)) \<le> length (f h)" by simp
  show ?case
  proof (cases "\<exists>r\<in>set (f h). \<not> P h r")
    case True
    then obtain r where "r \<in> set (f h)" "\<not> P h r" by blast
    then have "length (filter (P h) (f h)) < length (f h)"
      by (rule length_filter_less)
    with sum_list_filter_bound [of P f hs] show ?thesis by simp
  next
    case False
    with Cons.prems have "\<exists>h\<in>set hs. \<exists>r\<in>set (f h). \<not> P h r" by auto
    from Cons.IH [OF this] show ?thesis
      by (simp add: add_le_less_mono)
  qed
qed

lemma py_get_dict: "py_get (PyDict kvs) k dflt = Inr (dict_get kvs k dflt)"
  by (simp add: dict_get_def)

lemma py_get_Inr: "py_get v k dflt = Inr x \<Longrightarrow> \<exists>kvs. v = PyDict kvs \<and> x = dict_get kvs k dflt"
  by (cases v) (auto simp: dict_get_def)

lemma rate_hawk_body_count:
  assumes "rate_hawk_normalize_body build py_str raw = (e, acc, sk)"
  shows "length acc \<le> sum_list (map (good_rates build) (hotels_of raw))"
proof (cases "py_truthy raw")
  case False
  with assms show ?thesis by (simp add: rate_hawk_normalize_body_def)
next
  case True
  show ?thesis
  proof (cases "py_get raw ''data'' PyNone")
    case (Inl x)
    with True assms show ?thesis by (simp add: rate_hawk_normalize_body_def)
  next
    case (Inr data)
    from py_get_Inr [OF Inr] obtain raw_kvs where raw: "raw = PyDict raw_kvs"
      and data: "data = dict_get raw_kvs ''data'' PyNone"
      by blast
    show ?thesis
    proof (cases "py_truthy data")
      case False
      with Inr True assms show ?thesis by (simp add: rate_hawk_normalize_body_def)
    next
      case dtrue: True
      show ?thesis
      proof (cases "py_get data ''hotels'' (PyList [])")
        case (Inl x)
        with dtrue Inr True assms show ?thesis by (simp add: rate_hawk_normalize_body_def)
      next
        case hot: (Inr hotels)
        from py_get_Inr [OF hot] obtain dkvs where d: "data = PyDict dkvs"
          and hotels: "hotels = dict_get dkvs ''hotels'' (PyList [])"
          by blast
        show ?thesis
        proof (cases hotels)
          case (PyList hs)
          from PyList hotels have hh: "dict_get dkvs ''hotels'' (PyList []) = PyList hs"
            by simp
          from d data have dd: "dict_get raw_kvs ''data'' PyNone = PyDict dkvs"
            by simp
          have h: "hotels_of raw = hs"
            by (simp add: hotels_of_def raw dd hh)
          show ?thesis
          proof (cases "hs = []")
            case True
            with PyList hot dtrue Inr \<open>py_truthy raw\<close> raw assms show ?thesis
              by (simp add: rate_hawk_normalize_body_def)
          next
            case False
            with PyList hot dtrue Inr \<open>py_truthy raw\<close> raw assms
            have "rate_hawk_hotels build py_str raw_kvs hs [] 0 = (e, acc, sk)"
              by (simp add: rate_hawk_normalize_body_def)
            from rate_hawk_hotels_count [OF this] h show ?thesis by simp
          qed
        qed (use hot dtrue Inr True raw assms in \<open>simp_all add: rate_hawk_normalize_body_def\<close>)
      qed
    qed
  qed
qed

text \<open>
  Rate Hawk's \<^verbatim>\<open>normalize\<close> does what claim C7 says: it always returns a list, with at
  most one offer per rate of the response, and with fewer offers than rates as soon as
  one rate is not well formed; and an absent or empty response gives the empty list.
\<close>

lemma rate_hawk_normalize_drops_malformed:
  "\<exists>offer_list. rate_hawk_normalize build py_str raw crit = Inr offer_list
      \<and> length offer_list \<le> rate_hawk_entries raw
      \<and> ((\<exists>h\<in>set (hotels_of raw). \<exists>r\<in>set (rates_of h). \<not> rate_hawk_well_formed build h r)
            \<longrightarrow> length offer_list < rate_hawk_entries raw)"
proof -
  obtain e acc sk where body: "rate_hawk_normalize_body build py_str raw = (e, acc, sk)"
    by (metis prod_cases3)
  have n: "rate_hawk_normalize build py_str raw crit = Inr acc"
    by (simp add: rate_hawk_normalize_def body)
  have g: "sum_list (map (good_rates build) (hotels_of raw))
      = sum_list (map (\<lambda>h. length (filter (rate_hawk_well_formed build h) (rates_of h)))
                   (hotels_of raw))"
    by (simp add: good_rates_def [abs_def])
  note b = rate_hawk_body_count [OF body, unfolded g]
  from b sum_list_filter_bound [of "rate_hawk_well_formed build" rates_of "hotels_of raw"]
  have le: "length acc \<le> rate_hawk_entries raw"
    by (simp add: rate_hawk_entries_def)
  have lt: "length acc < rate_hawk_entries raw"
    if "\<exists>h\<in>set (hotels_of raw). \<exists>r\<in>set (rates_of h). \<not> rate_hawk_well_formed build h r"
    using b sum_list_filter_strict [OF that] by (simp add: rate_hawk_entries_def)
  from n le lt show ?thesis by blast
qed

lemma rate_hawk_normalize_absent:
  "rate_hawk_normalize build py_str PyNone crit = Inr []"
  "rate_hawk_normalize build py_str (PyDict []) crit = Inr []"
  "rate_hawk_normalize build py_str (PyDict [(''data'', PyNone)]) crit = Inr []"
  "rate_hawk_normalize build py_str (PyDict [(''data'', PyDict [(''hotels'', PyList [])])]) crit
     = Inr []"
  by (simp_all add: rate_hawk_normalize_def rate_hawk_normalize_body_def)

text \<open>
  A GoGlobal response with one hotel whose \<open>Offers\<close> is \<^verbatim>\<open>null\<close>, and one with a hotel
  whose second offer is the number 5.
\<close>

definition goglobal_null_offers :: pyval where
  "goglobal_null_offers =
     PyDict [(''status'', PyStr ''success''),
             (''data'', PyDict [(''Hotels'', PyList [PyDict [(''HotelCode'', PyStr ''H1''),
                                                              (''Offers'', PyNone)]]),
                                (''hotel_name_to_id_map'',
                                 PyDict [(''H1'', PyStr ''Banyan Tree Krabi'')])])]"

definition goglobal_bad_offer :: pyval where
  "goglobal_bad_offer =
     PyDict [(''status'', PyStr ''success''),
             (''data'', PyDict [(''Hotels'',
                                 PyList [PyDict [(''HotelCode'', PyStr ''H1''),
                                                 (''Offers'', PyList [PyDict [(''Rooms'', PyList [PyStr ''Double''])],
                                                                     PyInt 5])]]),
                                (''hotel_name_to_id_map'', PyDict [])])]"

lemma goglobal_normalize_drops_bad_offer:
  "\<exists>offer. goglobal_normalize ALLOWED_FIELDS py_str goglobal_bad_offer crit = Inr [offer]"
  by (simp add: goglobal_normalize_def goglobal_bad_offer_def dict_get_def
        process_hotel_offers_def goglobal_offer_def field_def ALLOWED_FIELDS_def)

lemma goglobal_normalize_absent:
  "goglobal_normalize allowed py_str PyNone crit = Inr []"
  "goglobal_normalize allowed py_str (PyDict []) crit = Inr []"
  by (simp_all add: goglobal_normalize_def dict_get_def)

text \<open>
  Claim C7 is about every adapter, and GoGlobal's \<^verbatim>\<open>normalize\<close> breaks it: on a response
  in which one hotel has \<^verbatim>\<open>"Offers": null\<close> it raises \<^verbatim>\<open>TypeError\<close>, where the claim wants
  the malformed part dropped and a list returned. The loop over a hotel's offers is
  entered outside any \<^verbatim>\<open>try\<close>.
\<close>

theorem goglobal_normalize_raises:
  "goglobal_normalize ALLOWED_FIELDS py_str goglobal_null_offers crit
     = Inl (TypeError ''object is not iterable'')"
  by (simp add: goglobal_normalize_def goglobal_null_offers_def dict_get_def
        process_hotel_offers_def Let_def)

end
